theory Spec2Isabelle
  imports Main "HOL-Library.Word"
begin

section \<open>Bootstrap of the server process (src/otserv.cpp)\<close>

text \<open>
  The file starts the dispatcher and scheduler threads, submits \<open>mainLoader\<close> to
  the dispatcher, blocks the main thread on the condition variable \<open>g_loaderSignal\<close>, and
  afterwards either serves or shuts down. The embedding below follows each thread in
  program order and records every observable call as an event of a trace.

  Conventions.
  \<^item> The build modelled is the non-Windows one without \<open>UNIT_TESTING\<close>, \<open>DEBUG_LOG\<close>,
    \<open>gitmetadata.h\<close> and \<open>LUAJIT_VERSION\<close>.
  \<^item> Everything the file calls in other translation units is an external call: it is
    recorded as an event, and its result is read from the environment \<open>env\<close>.
    External calls are assumed to return; blocking calls (\<open>getchar\<close>, \<open>wait\<close>, \<open>run\<close>,
    \<open>join\<close>) are recorded where they are made.
  \<^item> The main thread is taken to be in \<open>wait\<close> while the loader runs. Only after the
    \<open>notify_all\<close> of \<open>startupErrorMessage\<close> do both threads have calls left to make;
    their order is then given by the schedule of the environment (see \<open>main\<close>).
  \<^item> \<open>exit\<close> does not return: a function that may reach it yields \<open>Inl\<close> of the state in
    which the process was terminated, and \<open>Inr\<close> of the state in which it returned.
  \<^item> Memory exhaustion (\<open>badAllocationHandler\<close>) and exceptions other than the one caught
    at line 174 are left out.
\<close>

subsection \<open>Enumerations and events\<close>

datatype Worker = g_dispatcher | g_scheduler | g_databaseTasks

datatype level = SPDLOG_INFO | SPDLOG_WARN | SPDLOG_ERROR

datatype GameState_t = GAME_STATE_STARTUP | GAME_STATE_INIT | GAME_STATE_NORMAL

datatype WorldType_t = WORLD_TYPE_NO_PVP | WORLD_TYPE_PVP | WORLD_TYPE_PVP_ENFORCED

datatype RentPeriod_t =
  RENTPERIOD_DAILY | RENTPERIOD_WEEKLY | RENTPERIOD_MONTHLY | RENTPERIOD_YEARLY | RENTPERIOD_NEVER

datatype Protocol = ProtocolGame | ProtocolLogin | ProtocolStatus

datatype ConfigKey =
  CLIENT_VERSION_STR | OPTIMIZE_DATABASE | WORLD_TYPE | MAP_NAME | TOGGLE_MAP_CUSTOM
  | MAP_CUSTOM_NAME | GAME_PORT | LOGIN_PORT | STATUS_PORT | HOUSE_RENT_PERIOD
  | DISCORD_WEBHOOK_URL | SERVER_NAME

text \<open>The calls into other translation units, with the arguments the file passes.\<close>

datatype call =
    SetPattern string
  | ToggleForceCloseButton
  | SetNewHandler
  | Srand
  | InitGlobalScopes
  | ConfigLoad
  | LoadPEM string
  | DatabaseConnect
  | IsDatabaseSetup
  | UpdateDatabase
  | OptimizeTables
  | ItemsLoadFromOtb string
  | ItemsLoadFromXml
  | LoadScriptSystems
  | LuaLoadFile string
  | LoadScripts string bool bool
  | VocationsLoadFromXml
  | LoadScheduleEventFromXml
  | OutfitsLoadFromXml
  | FamiliarsLoadFromXml
  | ImbuementsLoadFromXml
  | ModulesLoadFromXml
  | EventsLoadFromXml
  | LoadBoostedCreature
  | SetGameState GameState_t
  | SetWorldType WorldType_t
  | LoadMainMap string
  | LoadCustomMap string
  | ServicesAdd Protocol "16 word"
  | PayHouses RentPeriod_t
  | CheckExpiredOffers
  | UpdateStatistics
  | GameStart
  | WebhookInit
  | WebhookSendMessage string string string

datatype event =
    Log level string
  | Call call
  | WriteFile string string
  | NotifyAll
  | Wait
  | GetChar
  | Exit int
  | Return int
  | Start Worker
  | Shutdown Worker
  | Join Worker
  | AddTask
  | Run

subsection \<open>Environment and state\<close>

text \<open>
  \<open>ok env c\<close> is the outcome of the fallible external call \<open>c\<close>: the boolean it returns,
  \<open>loadFromOtb(...) == ERROR_NONE\<close>, \<open>loadFile(...) == 0\<close>, and for \<open>loadPEM\<close> that no
  \<open>std::exception\<close> was thrown (\<open>what env\<close> is the message of the one thrown otherwise).
  \<open>bind_ok\<close> tells whether a listener can be bound, \<open>is_root\<close> is
  \<open>getuid() == 0 || geteuid() == 0\<close>. The next eight fields are fixed by the build: the
  macros of the status header, the strings that \<open>getCompiler\<close>, \<open>getCppVersion\<close> and
  \<open>getPlatform\<close> return (they depend on the compiler's predefined macros only), and
  \<open>__DATE__\<close> and \<open>__TIME__\<close>. \<open>schedule\<close> is the order in which the loader thread and
  the main thread take their steps when both can run (see \<open>main\<close>).
\<close>

record env =
  getString :: "ConfigKey \<Rightarrow> string"
  getBoolean :: "ConfigKey \<Rightarrow> bool"
  getNumber :: "ConfigKey \<Rightarrow> int"
  ok :: "call \<Rightarrow> bool"
  what :: string
  getClientVersion :: string
  bind_ok :: "Protocol \<Rightarrow> 16 word \<Rightarrow> bool"
  bind_error :: "Protocol \<Rightarrow> 16 word \<Rightarrow> string"
  is_root :: bool
  STATUS_SERVER_NAME :: string
  STATUS_SERVER_VERSION :: string
  STATUS_SERVER_DEVELOPERS :: string
  getCompiler :: string
  getCppVersion :: string
  getPlatform :: string
  build_date :: string
  build_time :: string
  schedule :: "bool list"

text \<open>
  The state: the trace of events so far, the files of the working directory that can be
  opened for reading (name to contents; \<open>./config.lua\<close> and \<open>config.lua\<close> name the same
  file), and the services registered with the \<open>ServiceManager\<close>.
\<close>

record pstate =
  trace :: "event list"
  files :: "string \<rightharpoonup> string"
  services :: "(Protocol \<times> 16 word) set"

type_synonym step = "pstate \<Rightarrow> pstate + pstate"

definition emit :: "event \<Rightarrow> pstate \<Rightarrow> pstate" where
  "emit e st = st\<lparr>trace := trace st @ [e]\<rparr>"

text \<open>A statement that always returns.\<close>

definition say :: "event \<Rightarrow> step" where
  "say e st = Inr (emit e st)"

text \<open>Statements in sequence: nothing after an \<open>exit\<close> runs.\<close>

fun run_steps :: "step list \<Rightarrow> step" where
  "run_steps [] st = Inr st"
| "run_steps (f # fs) st = (case f st of Inl t \<Rightarrow> Inl t | Inr t \<Rightarrow> run_steps fs t)"

text \<open>An external call whose result the next statement consumes.\<close>

definition calling :: "env \<Rightarrow> call \<Rightarrow> (bool \<Rightarrow> step) \<Rightarrow> step" where
  "calling env c k st = k (ok env c) (emit (Call c) st)"

definition final :: "pstate + pstate \<Rightarrow> pstate" where
  "final r = (case r of Inl t \<Rightarrow> t | Inr t \<Rightarrow> t)"

subsection \<open>Helpers declared outside src/\<close>

text \<open>
  Modelled from the spec: \<open>asLowerCaseString\<close> and \<open>asUpperCaseString\<close> are declared in the
  repository's utilities, which are not under src/, and the specification does not
  describe them. They are given the meaning of their names: each ASCII letter is mapped to
  its lower-case (upper-case) form and every other character is kept.
\<close>

definition lower_char :: "char \<Rightarrow> char" where
  "lower_char c = (let n = of_char c :: nat in if 65 \<le> n \<and> n \<le> 90 then char_of (n + 32) else c)"

definition upper_char :: "char \<Rightarrow> char" where
  "upper_char c = (let n = of_char c :: nat in if 97 \<le> n \<and> n \<le> 122 then char_of (n - 32) else c)"

definition asLowerCaseString :: "string \<Rightarrow> string" where
  "asLowerCaseString s = map lower_char s"

definition asUpperCaseString :: "string \<Rightarrow> string" where
  "asUpperCaseString s = map upper_char s"

text \<open>
  Modelled from the spec: \<open>ServiceManager\<close> (server/server.h) is not under src/.
  \<open>add(protocol, port)\<close> attempts to bind and register a listener; on bind failure it logs
  and does not add the service. \<open>is_running()\<close> is true iff at least one listener is
  registered.
\<close>

definition services_add :: "env \<Rightarrow> Protocol \<Rightarrow> 16 word \<Rightarrow> step" where
  "services_add env p port st =
     (let st1 = emit (Call (ServicesAdd p port)) st in
      if bind_ok env p port then Inr (st1\<lparr>services := insert (p, port) (services st1)\<rparr>)
      else Inr (emit (Log SPDLOG_ERROR (bind_error env p port)) st1))"

definition is_running :: "pstate \<Rightarrow> bool" where
  "is_running st = (services st \<noteq> {})"

subsection \<open>The fatal path\<close>

definition startupErrorMessage :: step where
  "startupErrorMessage st =
     Inl (emit (Exit (- 1)) (emit GetChar (emit NotifyAll
       (emit (Log SPDLOG_ERROR ''The program will close after pressing the enter key...'') st))))"

definition modulesLoadHelper :: "bool \<Rightarrow> string \<Rightarrow> step" where
  "modulesLoadHelper loaded moduleName st =
     (let st1 = emit (Log SPDLOG_INFO (''Loading '' @ moduleName)) st in
      if \<not> loaded then startupErrorMessage (emit (Log SPDLOG_ERROR (''Cannot load: '' @ moduleName)) st1)
      else Inr st1)"

text \<open>The pattern \<open>if (!b) { SPDLOG_ERROR(msg); startupErrorMessage(); }\<close>.\<close>

definition error_unless :: "string \<Rightarrow> bool \<Rightarrow> step" where
  "error_unless msg b st =
     (if \<not> b then startupErrorMessage (emit (Log SPDLOG_ERROR msg) st) else Inr st)"

subsection \<open>initGlobalScopes (lines 149-154) and loadModules (lines 164-244)\<close>

definition initGlobalScopes :: step where
  "initGlobalScopes = say (Call InitGlobalScopes)"

definition loadModules :: "env \<Rightarrow> step" where
  "loadModules env = run_steps [
     calling env ConfigLoad (\<lambda>loaded. modulesLoadHelper loaded ''config.lua''),
     say (Log SPDLOG_INFO (''Server protocol: '' @ getString env CLIENT_VERSION_STR)),
     calling env (LoadPEM ''key.pem'') (error_unless (what env)),
     say (Log SPDLOG_INFO ''Establishing database connection... ''),
     calling env DatabaseConnect (error_unless ''Failed to connect to database!''),
     say (Log SPDLOG_INFO (''MySQL Version: '' @ getClientVersion env)),
     say (Log SPDLOG_INFO ''Running database manager...''),
     calling env IsDatabaseSetup (error_unless
       (''The database you have specified in config.lua is empty, '' @
        ''please import the schema.sql to your database.'')),
     say (Start g_databaseTasks),
     say (Call UpdateDatabase),
     (\<lambda>st. if getBoolean env OPTIMIZE_DATABASE
           then calling env OptimizeTables (\<lambda>optimized st'.
                  if \<not> optimized then say (Log SPDLOG_INFO ''No tables were optimized'') st'
                  else Inr st') st
           else Inr st),
     calling env (ItemsLoadFromOtb ''data/items/items.otb'')
       (\<lambda>loaded. modulesLoadHelper loaded ''items.otb''),
     calling env ItemsLoadFromXml (\<lambda>loaded. modulesLoadHelper loaded ''items.xml''),
     calling env LoadScriptSystems (\<lambda>loaded. modulesLoadHelper loaded ''script systems''),
     calling env (LuaLoadFile ''data/global.lua'')
       (\<lambda>loaded. modulesLoadHelper loaded ''data/global.lua''),
     calling env (LuaLoadFile ''data/stages.lua'')
       (\<lambda>loaded. modulesLoadHelper loaded ''data/stages.lua''),
     calling env (LuaLoadFile ''data/startup/startup.lua'')
       (\<lambda>loaded. modulesLoadHelper loaded ''data/startup/startup.lua''),
     calling env (LuaLoadFile ''data/npclib/load.lua'')
       (\<lambda>loaded. modulesLoadHelper loaded ''data/npclib/load.lua''),
     calling env (LoadScripts ''scripts/lib'' True False)
       (\<lambda>loaded. modulesLoadHelper loaded ''data/scripts/libs''),
     calling env VocationsLoadFromXml
       (\<lambda>loaded. modulesLoadHelper loaded ''data/XML/vocations.xml''),
     calling env LoadScheduleEventFromXml
       (\<lambda>loaded. modulesLoadHelper loaded ''data/XML/events.xml''),
     calling env OutfitsLoadFromXml
       (\<lambda>loaded. modulesLoadHelper loaded ''data/XML/outfits.xml''),
     calling env FamiliarsLoadFromXml
       (\<lambda>loaded. modulesLoadHelper loaded ''data/XML/familiars.xml''),
     calling env ImbuementsLoadFromXml
       (\<lambda>loaded. modulesLoadHelper loaded ''data/XML/imbuements.xml''),
     calling env ModulesLoadFromXml
       (\<lambda>loaded. modulesLoadHelper loaded ''data/modules/modules.xml''),
     calling env EventsLoadFromXml
       (\<lambda>loaded. modulesLoadHelper loaded ''data/events/events.xml''),
     calling env (LoadScripts ''scripts'' False False)
       (\<lambda>loaded. modulesLoadHelper loaded ''data/scripts''),
     calling env (LoadScripts ''monster'' False False)
       (\<lambda>loaded. modulesLoadHelper loaded ''data/monster''),
     calling env (LoadScripts ''npclua'' False False)
       (\<lambda>loaded. modulesLoadHelper loaded ''data/npclua''),
     say (Call LoadBoostedCreature)]"

subsection \<open>mainLoader (lines 288-429)\<close>

text \<open>
  Lines 323-336. The copy assumes that \<open>config.lua\<close> can be created in the working
  directory.
\<close>

definition copyConfigDist :: "pstate \<Rightarrow> pstate" where
  "copyConfigDist st =
     (case files st ''config.lua'' of
        None \<Rightarrow>
          (case files st ''config.lua.dist'' of
             Some config_lua_dist \<Rightarrow>
               (emit (WriteFile ''config.lua'' config_lua_dist)
                  (emit (Log SPDLOG_INFO ''Copying config.lua.dist to config.lua'') st))
               \<lparr>files := (files st)(''config.lua'' \<mapsto> config_lua_dist)\<rparr>
           | None \<Rightarrow> st)
      | Some c_test \<Rightarrow> st)"

text \<open>Lines 351-364: the world type is set from the configuration, or the loader ends.\<close>

definition setWorldType :: "env \<Rightarrow> step" where
  "setWorldType env st =
     (let worldType = asLowerCaseString (getString env WORLD_TYPE) in
      case (if worldType = ''pvp'' then say (Call (SetWorldType WORLD_TYPE_PVP)) st
            else if worldType = ''no-pvp'' then say (Call (SetWorldType WORLD_TYPE_NO_PVP)) st
            else if worldType = ''pvp-enforced''
            then say (Call (SetWorldType WORLD_TYPE_PVP_ENFORCED)) st
            else startupErrorMessage
                   (emit (Log SPDLOG_ERROR (''Unknown world type: '' @ getString env WORLD_TYPE @
                      '', valid world types are: pvp, no-pvp and pvp-enforced'')) st))
      of Inl t \<Rightarrow> Inl t
       | Inr t \<Rightarrow> say (Log SPDLOG_INFO (''World type set as '' @ asUpperCaseString worldType)) t)"

text \<open>Lines 390-403: the rent period passed to \<open>payHouses\<close>.\<close>

definition rentPeriod :: "env \<Rightarrow> RentPeriod_t" where
  "rentPeriod env =
     (let strRentPeriod = asLowerCaseString (getString env HOUSE_RENT_PERIOD) in
      if strRentPeriod = ''yearly'' then RENTPERIOD_YEARLY
      else if strRentPeriod = ''weekly'' then RENTPERIOD_WEEKLY
      else if strRentPeriod = ''monthly'' then RENTPERIOD_MONTHLY
      else if strRentPeriod = ''daily'' then RENTPERIOD_DAILY
      else RENTPERIOD_NEVER)"

text \<open>Lines 290-340: the banner, the configuration file, and the modules.\<close>

definition mainLoader_init :: "env \<Rightarrow> step list" where
  "mainLoader_init env = [
     say (Call (SetGameState GAME_STATE_STARTUP)),
     say (Call Srand),
     say (Log SPDLOG_INFO (STATUS_SERVER_NAME env @ '' - Version '' @ STATUS_SERVER_VERSION env)),
     say (Log SPDLOG_INFO (''Compiled with '' @ getCompiler env @ '', linked with standard '' @
            getCppVersion env)),
     say (Log SPDLOG_INFO (''Compiled on '' @ build_date env @ '' '' @ build_time env @
            '' for platform '' @ getPlatform env @ [CHR 0x0A])),
     say (Log SPDLOG_INFO (''A server developed by: '' @ STATUS_SERVER_DEVELOPERS env)),
     say (Log SPDLOG_INFO (''Visit our website for updates, support, and resources: '' @
            ''https://docs.opentibiabr.org/'')),
     (\<lambda>st. Inr (copyConfigDist st)),
     initGlobalScopes,
     loadModules env]"

text \<open>Lines 366-379: the main map and, when enabled, the custom map.\<close>

definition mainLoader_map :: "env \<Rightarrow> step list" where
  "mainLoader_map env = [
     say (Log SPDLOG_INFO ''Loading map...''),
     calling env (LoadMainMap (getString env MAP_NAME)) (error_unless ''Failed to load map''),
     (\<lambda>st. if getBoolean env TOGGLE_MAP_CUSTOM
           then run_steps [
                  say (Log SPDLOG_INFO ''Loading custom map...''),
                  calling env (LoadCustomMap (getString env MAP_CUSTOM_NAME))
                    (error_unless ''Failed to load custom map'')] st
           else Inr st)]"

text \<open>Lines 381-426: services, house rent, market, game start and webhook.\<close>

definition mainLoader_start :: "env \<Rightarrow> step list" where
  "mainLoader_start env = [
     say (Log SPDLOG_INFO ''Initializing gamestate...''),
     say (Call (SetGameState GAME_STATE_INIT)),
     services_add env ProtocolGame (word_of_int (getNumber env GAME_PORT)),
     services_add env ProtocolLogin (word_of_int (getNumber env LOGIN_PORT)),
     services_add env ProtocolStatus (word_of_int (getNumber env STATUS_PORT)),
     say (Call (PayHouses (rentPeriod env))),
     say (Call CheckExpiredOffers),
     say (Call UpdateStatistics),
     say (Log SPDLOG_INFO ''Loaded all modules, server starting up...''),
     (\<lambda>st. if is_root env
           then say (Log SPDLOG_WARN (STATUS_SERVER_NAME env @ '' has been executed as root user, '' @
                  ''please consider running it as a normal user'')) st
           else Inr st),
     say (Call GameStart),
     say (Call (SetGameState GAME_STATE_NORMAL)),
     say (Call WebhookInit),
     say (Call (WebhookSendMessage ''Server is now online'' ''Server has successfully started.''
            (getString env DISCORD_WEBHOOK_URL)))]"

text \<open>The whole loader; its last statement is the \<open>notify_all\<close> of line 428.\<close>

definition mainLoader :: "env \<Rightarrow> step" where
  "mainLoader env =
     run_steps (mainLoader_init env @ [setWorldType env] @ mainLoader_map env @
                mainLoader_start env @ [say NotifyAll])"

subsection \<open>main (lines 247-285)\<close>

text \<open>Lines 252-268: up to and including the call of \<open>g_loaderSignal.wait\<close>.\<close>

definition main_startup :: "pstate \<Rightarrow> pstate" where
  "main_startup st = foldl (\<lambda>s e. emit e s) st [
     Call (SetPattern ''[%Y-%d-%m %H:%M:%S.%e] [%^%l%$] %v ''),
     Call ToggleForceCloseButton,
     Call SetNewHandler,
     Start g_dispatcher,
     Start g_scheduler,
     AddTask,
     Wait]"

text \<open>Lines 270-284: what the main thread does once its wait is over.\<close>

definition main_resume :: "env \<Rightarrow> pstate \<Rightarrow> pstate" where
  "main_resume env st =
     (if is_running st
      then foldl (\<lambda>s e. emit e s) st [
             Log SPDLOG_INFO (getString env SERVER_NAME @ '' '' @ ''server online!''),
             Run,
             Join g_scheduler,
             Join g_databaseTasks,
             Join g_dispatcher,
             Return 0]
      else foldl (\<lambda>s e. emit e s) st [
             Log SPDLOG_ERROR ''No services running. The server is NOT online!'',
             Shutdown g_databaseTasks,
             Shutdown g_dispatcher,
             Exit (- 1)])"

definition init :: "(string \<rightharpoonup> string) \<Rightarrow> pstate" where
  "init fs = \<lparr>trace = [], files = fs, services = {}\<rparr>"

text \<open>The events of a trace before and after the first occurrence of \<open>x\<close>.\<close>

definition events_before :: "event \<Rightarrow> event list \<Rightarrow> event list" where
  "events_before x tr = takeWhile (\<lambda>e. e \<noteq> x) tr"

definition events_after :: "event \<Rightarrow> event list \<Rightarrow> event list" where
  "events_after x tr = tl (dropWhile (\<lambda>e. e \<noteq> x) tr)"

text \<open>
  Two threads that run at once, each with the calls it still has to make: the head of the
  schedule tells whose call comes next (\<open>True\<close>: the first thread's). When the schedule is
  used up, the second thread makes its calls before the first. \<open>exit\<close> ends the process
  for both: nothing after the first \<open>Exit\<close> happens.
\<close>

fun interleave :: "bool list \<Rightarrow> event list \<Rightarrow> event list \<Rightarrow> event list" where
  "interleave sched [] ys = ys"
| "interleave sched xs [] = xs"
| "interleave [] xs ys = ys @ xs"
| "interleave (b # sched) (x # xs) (y # ys) =
     (if b then x # interleave sched xs (y # ys) else y # interleave sched (x # xs) ys)"

fun until_exit :: "event list \<Rightarrow> event list" where
  "until_exit [] = []"
| "until_exit (Exit c # es) = [Exit c]"
| "until_exit (e # es) = e # until_exit es"

text \<open>
  The process. The main thread is blocked in \<open>wait\<close> while the dispatcher thread runs the
  loader, and it resumes at the loader's \<open>notify_all\<close>.

  When the loader returns, that \<open>notify_all\<close> is its last statement (line 428), and the
  main thread goes on alone with \<open>main_resume\<close>.

  When the loader ends in \<open>startupErrorMessage\<close>, the \<open>notify_all\<close> of line 134 releases
  the main thread before the loader thread calls \<open>getchar\<close> and \<open>exit(-1)\<close>. From then on
  both threads run: the loader thread has the events after its \<open>notify_all\<close> still to
  make, the main thread those of lines 270-279 (\<open>main_resume\<close>, in the state at the
  signal), in the order given by \<open>schedule env\<close>, and the process ends at the first
  \<open>exit\<close> that either of them reaches.

  That the main thread is already waiting when the signal comes, and that a wait ends only
  by a signal, is assumed: the condition variable itself is not modelled.
\<close>

definition main :: "env \<Rightarrow> (string \<rightharpoonup> string) \<Rightarrow> pstate" where
  "main env fs =
     (case mainLoader env (main_startup (init fs)) of
        Inr st \<Rightarrow> main_resume env st
      | Inl st \<Rightarrow>
          st\<lparr>trace := events_before NotifyAll (trace st) @ NotifyAll #
            until_exit (interleave (schedule env)
              (events_after NotifyAll (trace st))
              (trace (main_resume env (st\<lparr>trace := []\<rparr>))))\<rparr>)"

text \<open>The code with which the process ends: the argument of \<open>exit\<close> or the value \<open>main\<close> returns.\<close>

definition exit_code :: "pstate \<Rightarrow> int option" where
  "exit_code st =
     (case rev (trace st) of
        Exit c # _ \<Rightarrow> Some c
      | Return c # _ \<Rightarrow> Some c
      | _ \<Rightarrow> None)"

subsection \<open>Notions used by the properties\<close>

text \<open>What \<open>startupErrorMessage\<close> appends to the trace.\<close>

definition escalation :: "event list" where
  "escalation = [Log SPDLOG_ERROR ''The program will close after pressing the enter key...'',
     NotifyAll, GetChar, Exit (- 1)]"

text \<open>
  The mandatory calls: those whose failure the file answers with \<open>startupErrorMessage\<close>,
  through \<open>modulesLoadHelper\<close> or directly. \<open>optimizeTables\<close> and \<open>ServiceManager::add\<close> may
  fail without consequence, and the other calls return nothing.
\<close>

fun mandatory :: "call \<Rightarrow> bool" where
  "mandatory ConfigLoad = True"
| "mandatory (LoadPEM _) = True"
| "mandatory DatabaseConnect = True"
| "mandatory IsDatabaseSetup = True"
| "mandatory (ItemsLoadFromOtb _) = True"
| "mandatory ItemsLoadFromXml = True"
| "mandatory LoadScriptSystems = True"
| "mandatory (LuaLoadFile _) = True"
| "mandatory (LoadScripts _ _ _) = True"
| "mandatory VocationsLoadFromXml = True"
| "mandatory LoadScheduleEventFromXml = True"
| "mandatory OutfitsLoadFromXml = True"
| "mandatory FamiliarsLoadFromXml = True"
| "mandatory ImbuementsLoadFromXml = True"
| "mandatory ModulesLoadFromXml = True"
| "mandatory EventsLoadFromXml = True"
| "mandatory (LoadMainMap _) = True"
| "mandatory (LoadCustomMap _) = True"
| "mandatory _ = False"

text \<open>An event that is a mandatory call which failed.\<close>

fun failed :: "env \<Rightarrow> event \<Rightarrow> bool" where
  "failed env (Call c) = (mandatory c \<and> \<not> ok env c)"
| "failed env _ = False"

text \<open>
  The events that are no stage of the loader: log lines, what \<open>startupErrorMessage\<close> does,
  and the shutdown requests that the main thread makes once it is released.
\<close>

fun quiet :: "event \<Rightarrow> bool" where
  "quiet (Log _ _) = True"
| "quiet NotifyAll = True"
| "quiet GetChar = True"
| "quiet (Exit _) = True"
| "quiet (Shutdown _) = True"
| "quiet _ = False"

fun is_log :: "event \<Rightarrow> bool" where
  "is_log (Log _ _) = True"
| "is_log _ = False"

fun is_write :: "event \<Rightarrow> bool" where
  "is_write (WriteFile _ _) = True"
| "is_write _ = False"

definition not_write :: "event \<Rightarrow> bool" where
  "not_write e = (\<not> is_write e)"

text \<open>The world type that the three names select (lines 352-357).\<close>

definition worldTypeOf :: "string \<Rightarrow> WorldType_t option" where
  "worldTypeOf w =
     (if w = ''pvp'' then Some WORLD_TYPE_PVP
      else if w = ''no-pvp'' then Some WORLD_TYPE_NO_PVP
      else if w = ''pvp-enforced'' then Some WORLD_TYPE_PVP_ENFORCED
      else None)"

text \<open>The environment \<open>env\<close> with the configured rent period replaced by \<open>s\<close>.\<close>

definition with_rent_period :: "env \<Rightarrow> string \<Rightarrow> env" where
  "with_rent_period env s = env\<lparr>getString := (getString env)(HOUSE_RENT_PERIOD := s)\<rparr>"

subsection \<open>The calls of each block\<close>

text \<open>The calls of lines 290-340, of lines 381-426, and of everything after line 364.\<close>

fun init_call :: "call \<Rightarrow> bool" where
  "init_call (SetGameState s) = (s = GAME_STATE_STARTUP)"
| "init_call Srand = True"
| "init_call InitGlobalScopes = True"
| "init_call ConfigLoad = True"
| "init_call (LoadPEM _) = True"
| "init_call DatabaseConnect = True"
| "init_call IsDatabaseSetup = True"
| "init_call UpdateDatabase = True"
| "init_call OptimizeTables = True"
| "init_call (ItemsLoadFromOtb _) = True"
| "init_call ItemsLoadFromXml = True"
| "init_call LoadScriptSystems = True"
| "init_call (LuaLoadFile _) = True"
| "init_call (LoadScripts _ _ _) = True"
| "init_call VocationsLoadFromXml = True"
| "init_call LoadScheduleEventFromXml = True"
| "init_call OutfitsLoadFromXml = True"
| "init_call FamiliarsLoadFromXml = True"
| "init_call ImbuementsLoadFromXml = True"
| "init_call ModulesLoadFromXml = True"
| "init_call EventsLoadFromXml = True"
| "init_call LoadBoostedCreature = True"
| "init_call _ = False"

fun start_call :: "call \<Rightarrow> bool" where
  "start_call (SetGameState s) = (s = GAME_STATE_INIT \<or> s = GAME_STATE_NORMAL)"
| "start_call (ServicesAdd _ _) = True"
| "start_call (PayHouses _) = True"
| "start_call CheckExpiredOffers = True"
| "start_call UpdateStatistics = True"
| "start_call GameStart = True"
| "start_call WebhookInit = True"
| "start_call (WebhookSendMessage _ _ _) = True"
| "start_call _ = False"


subsection \<open>What a step may do\<close>

text \<open>
  The events of a block whose calls satisfy \<open>C\<close>, as long as no mandatory call fails; and
  the events of the statement that fails, up to \<open>startupErrorMessage\<close>: the failed call, if
  the check is one of a call, and log lines.
\<close>

fun block_event :: "(call \<Rightarrow> bool) \<Rightarrow> env \<Rightarrow> event \<Rightarrow> bool" where
  "block_event C env (Log _ _) = True"
| "block_event C env (Call c) = (C c \<and> (mandatory c \<longrightarrow> ok env c))"
| "block_event C env (WriteFile f _) = (f = ''config.lua'')"
| "block_event C env (Start w) = (w = g_databaseTasks)"
| "block_event C env _ = False"

fun fail_tail :: "(call \<Rightarrow> bool) \<Rightarrow> env \<Rightarrow> event list \<Rightarrow> bool" where
  "fail_tail C env (Call c # logs) = (C c \<and> mandatory c \<and> \<not> ok env c \<and> list_all is_log logs)"
| "fail_tail C env logs = list_all is_log logs"

text \<open>
  A step that may end in \<open>startupErrorMessage\<close>: it only appends events to the trace, all
  of them in \<open>P\<close>, and when it ends the process the trace ends with events in \<open>T\<close>
  followed by those of \<open>startupErrorMessage\<close>. It binds no service.
\<close>

definition fallible :: "(event \<Rightarrow> bool) \<Rightarrow> (event list \<Rightarrow> bool) \<Rightarrow> step \<Rightarrow> bool" where
  "fallible P T f \<longleftrightarrow>
     (\<forall>st. \<exists>evs. list_all P evs \<and>
        (case f st of
           Inr t \<Rightarrow> trace t = trace st @ evs \<and> services t = services st
         | Inl t \<Rightarrow> \<exists>fin. T fin \<and> trace t = trace st @ evs @ fin @ escalation \<and>
                      services t = services st))"

text \<open>A step that always returns, appends events in \<open>P\<close> and writes no file.\<close>

definition infallible :: "(event \<Rightarrow> bool) \<Rightarrow> step \<Rightarrow> bool" where
  "infallible P f \<longleftrightarrow>
     (\<forall>st. \<exists>evs t. list_all P evs \<and> f st = Inr t \<and> trace t = trace st @ evs \<and>
        files t = files st \<and> services st \<subseteq> services t)"

definition keeps_files :: "step \<Rightarrow> bool" where
  "keeps_files f \<longleftrightarrow> (\<forall>st. files (final (f st)) = files st)"

definition extends :: "(event \<Rightarrow> bool) \<Rightarrow> step \<Rightarrow> bool" where
  "extends P f \<longleftrightarrow>
     (\<forall>st. \<exists>more. trace (final (f st)) = trace st @ more \<and> list_all P more)"

definition starts_with :: "(event \<Rightarrow> bool) \<Rightarrow> event \<Rightarrow> step \<Rightarrow> bool" where
  "starts_with P e f \<longleftrightarrow>
     (\<forall>st. \<exists>more. trace (final (f st)) = trace st @ e # more \<and> list_all P more)"

subsection \<open>Concrete environments\<close>

text \<open>
  Every external call succeeds and every listener binds. Should the loader end in
  \<open>startupErrorMessage\<close>, its thread gets as far as \<open>getchar\<close>, where it waits for the key
  while the main thread runs to its \<open>exit\<close>.
\<close>

definition env_ok :: env where
  "env_ok = \<lparr>
     getString = (\<lambda>k. if k = WORLD_TYPE then ''pvp''
                   else if k = HOUSE_RENT_PERIOD then ''monthly''
                   else if k = MAP_NAME then ''otservbr''
                   else if k = SERVER_NAME then ''Canary''
                   else if k = CLIENT_VERSION_STR then ''12.64''
                   else []),
     getBoolean = (\<lambda>k. False),
     getNumber = (\<lambda>k. if k = GAME_PORT then 7172 else if k = LOGIN_PORT then 7171
                   else if k = STATUS_PORT then 7171 else 0),
     ok = (\<lambda>c. True),
     what = ''Missing file key.pem'',
     getClientVersion = ''8.0'',
     bind_ok = (\<lambda>p port. True),
     bind_error = (\<lambda>p port. ''bind failed''),
     is_root = False,
     STATUS_SERVER_NAME = ''Canary'',
     STATUS_SERVER_VERSION = ''1.0'',
     STATUS_SERVER_DEVELOPERS = ''OpenTibiaBR'',
     getCompiler = ''G++ 11.2.0'',
     getCppVersion = ''C++17'',
     getPlatform = ''x64'',
     build_date = ''Jan  1 2022'',
     build_time = ''00:00:00'',
     schedule = [True]\<rparr>"

text \<open>As \<open>env_ok\<close>, but no listener can be bound (the ports are in use).\<close>

definition env_ports_in_use :: env where
  "env_ports_in_use = env_ok\<lparr>bind_ok := (\<lambda>p port. False)\<rparr>"

text \<open>As \<open>env_ok\<close>, but \<open>config.lua\<close> cannot be loaded.\<close>

definition env_config_missing :: env where
  "env_config_missing = env_ok\<lparr>ok := (\<lambda>c. c \<noteq> ConfigLoad)\<rparr>"

text \<open>As \<open>env_ok\<close>, but the database cannot be reached.\<close>

definition env_database_down :: env where
  "env_database_down = env_ok\<lparr>ok := (\<lambda>c. c \<noteq> DatabaseConnect)\<rparr>"

text \<open>
  The same, with the key pressed at once: the loader thread reaches its \<open>exit\<close> before the
  main thread has made any call.
\<close>

definition env_database_down_key_pressed :: env where
  "env_database_down_key_pressed = env_database_down\<lparr>schedule := [True, True]\<rparr>"

text \<open>As \<open>env_ok\<close>, with an unknown world type, and with a valid one in mixed case.\<close>

definition env_world_type_invalid :: env where
  "env_world_type_invalid =
     env_ok\<lparr>getString := (getString env_ok)(WORLD_TYPE := ''invalid-mode'')\<rparr>"


text \<open>A working directory in which only \<open>config.lua.dist\<close> exists.\<close>

definition fs_dist_only :: "string \<rightharpoonup> string" where
  "fs_dist_only = [''config.lua.dist'' \<mapsto> ''worldType = pvp'']"

section \<open>Properties\<close>

lemma trace_emit [simp]: "trace (emit e st) = trace st @ [e]"
  by (simp add: emit_def)

lemma files_emit [simp]: "files (emit e st) = files st"
  by (simp add: emit_def)

lemma services_emit [simp]: "services (emit e st) = services st"
  by (simp add: emit_def)

lemma is_running_emit [simp]: "is_running (emit e st) = is_running st"
  by (simp add: is_running_def)

lemma final_simps [simp]: "final (Inl t) = t" "final (Inr t) = t"
  by (simp_all add: final_def)

subsection \<open>Steps that may end the process\<close>

lemma startupErrorMessage_eq:
  "startupErrorMessage st = Inl (st\<lparr>trace := trace st @ escalation\<rparr>)"
  by (simp add: startupErrorMessage_def escalation_def emit_def)

lemma fallibleI:
  assumes "\<And>st. \<exists>evs. list_all P evs \<and>
        (case f st of
           Inr t \<Rightarrow> trace t = trace st @ evs \<and> services t = services st
         | Inl t \<Rightarrow> \<exists>fin. T fin \<and> trace t = trace st @ evs @ fin @ escalation \<and>
                      services t = services st)"
  shows "fallible P T f"
  using assms unfolding fallible_def by blast

lemma fallible_Inr:
  assumes "fallible P T f" and "f st = Inr t"
  shows "\<exists>evs. list_all P evs \<and> trace t = trace st @ evs \<and> services t = services st"
proof -
  from assms(1) obtain evs where "list_all P evs"
    and "case f st of
           Inr t \<Rightarrow> trace t = trace st @ evs \<and> services t = services st
         | Inl t \<Rightarrow> \<exists>fin. T fin \<and> trace t = trace st @ evs @ fin @ escalation \<and>
                      services t = services st"
    unfolding fallible_def by blast
  with assms(2) show ?thesis by auto
qed

lemma fallible_Inl:
  assumes "fallible P T f" and "f st = Inl t"
  shows "\<exists>evs fin. list_all P evs \<and> T fin \<and> trace t = trace st @ evs @ fin @ escalation \<and>
           services t = services st"
proof -
  from assms(1) obtain evs where "list_all P evs"
    and "case f st of
           Inr t \<Rightarrow> trace t = trace st @ evs \<and> services t = services st
         | Inl t \<Rightarrow> \<exists>fin. T fin \<and> trace t = trace st @ evs @ fin @ escalation \<and>
                      services t = services st"
    unfolding fallible_def by blast
  with assms(2) show ?thesis by auto
qed

lemma fallible_say: "P e \<Longrightarrow> fallible P T (say e)"
  by (rule fallibleI, rule exI [where x = "[e]"]) (simp add: say_def)

lemma fallible_skip: "fallible P T Inr"
  by (rule fallibleI, rule exI [where x = "[]"]) simp

lemma fallible_load:
  assumes "ok env c \<Longrightarrow> P (Call c)"
    and "P (Log SPDLOG_INFO (''Loading '' @ name))"
    and "\<not> ok env c \<Longrightarrow> T [Call c, Log SPDLOG_INFO (''Loading '' @ name),
           Log SPDLOG_ERROR (''Cannot load: '' @ name)]"
  shows "fallible P T (calling env c (\<lambda>loaded. modulesLoadHelper loaded name))"
proof (rule fallibleI, cases "ok env c")
  case True
  fix st
  from True assms show "\<exists>evs. list_all P evs \<and>
        (case calling env c (\<lambda>loaded. modulesLoadHelper loaded name) st of
           Inr t \<Rightarrow> trace t = trace st @ evs \<and> services t = services st
         | Inl t \<Rightarrow> \<exists>fin. T fin \<and> trace t = trace st @ evs @ fin @ escalation \<and>
                      services t = services st)"
    by (intro exI [where x = "[Call c, Log SPDLOG_INFO (''Loading '' @ name)]"])
       (simp add: calling_def modulesLoadHelper_def)
next
  case False
  fix st
  from False assms(3) show "\<exists>evs. list_all P evs \<and>
        (case calling env c (\<lambda>loaded. modulesLoadHelper loaded name) st of
           Inr t \<Rightarrow> trace t = trace st @ evs \<and> services t = services st
         | Inl t \<Rightarrow> \<exists>fin. T fin \<and> trace t = trace st @ evs @ fin @ escalation \<and>
                      services t = services st)"
    by (intro exI [where x = "[]"])
       (auto simp add: calling_def modulesLoadHelper_def startupErrorMessage_eq)
qed

lemma fallible_check:
  assumes "ok env c \<Longrightarrow> P (Call c)"
    and "\<not> ok env c \<Longrightarrow> T [Call c, Log SPDLOG_ERROR msg]"
  shows "fallible P T (calling env c (error_unless msg))"
proof (rule fallibleI, cases "ok env c")
  case True
  fix st
  from True assms show "\<exists>evs. list_all P evs \<and>
        (case calling env c (error_unless msg) st of
           Inr t \<Rightarrow> trace t = trace st @ evs \<and> services t = services st
         | Inl t \<Rightarrow> \<exists>fin. T fin \<and> trace t = trace st @ evs @ fin @ escalation \<and>
                      services t = services st)"
    by (intro exI [where x = "[Call c]"]) (simp add: calling_def error_unless_def)
next
  case False
  fix st
  from False assms(2) show "\<exists>evs. list_all P evs \<and>
        (case calling env c (error_unless msg) st of
           Inr t \<Rightarrow> trace t = trace st @ evs \<and> services t = services st
         | Inl t \<Rightarrow> \<exists>fin. T fin \<and> trace t = trace st @ evs @ fin @ escalation \<and>
                      services t = services st)"
    by (intro exI [where x = "[]"])
       (auto simp add: calling_def error_unless_def startupErrorMessage_eq)
qed

lemma fallible_if:
  "(b \<Longrightarrow> fallible P T f) \<Longrightarrow> (\<not> b \<Longrightarrow> fallible P T g) \<Longrightarrow>
   fallible P T (\<lambda>st. if b then f st else g st)"
  by (cases b) (simp_all add: fallible_def)

lemma fallible_calling_say:
  assumes "P (Call c)" and "\<not> ok env c \<Longrightarrow> P e"
  shows "fallible P T (calling env c (\<lambda>b st'. if \<not> b then say e st' else Inr st'))"
  using assms
  by (intro fallibleI exI [where x = "if ok env c then [Call c] else [Call c, e]"])
     (simp add: calling_def say_def)

lemma fallible_Nil: "fallible P T (run_steps [])"
  by (rule fallibleI, rule exI [where x = "[]"]) simp

lemma fallible_seq:
  assumes g: "fallible P T g" and h: "fallible P T h"
  shows "fallible P T (\<lambda>st. case g st of Inl t \<Rightarrow> Inl t | Inr t \<Rightarrow> h t)"
proof (rule fallibleI)
  fix st
  show "\<exists>evs. list_all P evs \<and>
        (case (case g st of Inl t \<Rightarrow> Inl t | Inr t \<Rightarrow> h t) of
           Inr t \<Rightarrow> trace t = trace st @ evs \<and> services t = services st
         | Inl t \<Rightarrow> \<exists>fin. T fin \<and> trace t = trace st @ evs @ fin @ escalation \<and>
                      services t = services st)"
  proof (cases "g st")
    case (Inl t)
    from fallible_Inl [OF g Inl] obtain evs fin where "list_all P evs" "T fin"
      "trace t = trace st @ evs @ fin @ escalation" "services t = services st"
      by blast
    with Inl show ?thesis by (intro exI [where x = evs]) auto
  next
    case (Inr t)
    from fallible_Inr [OF g Inr] obtain evs where evs: "list_all P evs"
      "trace t = trace st @ evs" "services t = services st"
      by blast
    show ?thesis
    proof (cases "h t")
      case (Inl u)
      from fallible_Inl [OF h Inl] obtain evs' fin where "list_all P evs'" "T fin"
        "trace u = trace t @ evs' @ fin @ escalation" "services u = services t"
        by blast
      with evs Inl \<open>g st = Inr t\<close> show ?thesis
        by (intro exI [where x = "evs @ evs'"]) auto
    next
      case (Inr u)
      from fallible_Inr [OF h Inr] obtain evs' where "list_all P evs'"
        "trace u = trace t @ evs'" "services u = services t"
        by blast
      with evs Inr \<open>g st = Inr t\<close> show ?thesis
        by (intro exI [where x = "evs @ evs'"]) auto
    qed
  qed
qed

lemma run_steps_Cons_eq:
  "run_steps (f # fs) = (\<lambda>st. case f st of Inl t \<Rightarrow> Inl t | Inr t \<Rightarrow> run_steps fs t)"
  by (rule ext) simp

lemma run_steps_append:
  "run_steps (xs @ ys) st = (case run_steps xs st of Inl t \<Rightarrow> Inl t | Inr t \<Rightarrow> run_steps ys t)"
  by (induction xs arbitrary: st) (simp_all split: sum.splits)

lemma run_steps_append_eq:
  "run_steps (xs @ ys) =
     (\<lambda>st. case run_steps xs st of Inl t \<Rightarrow> Inl t | Inr t \<Rightarrow> run_steps ys t)"
  by (rule ext) (rule run_steps_append)

lemma fallible_Cons:
  "fallible P T f \<Longrightarrow> fallible P T (run_steps fs) \<Longrightarrow> fallible P T (run_steps (f # fs))"
  unfolding run_steps_Cons_eq by (rule fallible_seq)

lemma fallible_append:
  "fallible P T (run_steps xs) \<Longrightarrow> fallible P T (run_steps ys) \<Longrightarrow>
   fallible P T (run_steps (xs @ ys))"
  unfolding run_steps_append_eq by (rule fallible_seq)

lemma fallible_copy:
  assumes "P (Log SPDLOG_INFO ''Copying config.lua.dist to config.lua'')"
    and "\<And>c. P (WriteFile ''config.lua'' c)"
  shows "fallible P T (\<lambda>st. Inr (copyConfigDist st))"
proof (rule fallibleI)
  fix st
  show "\<exists>evs. list_all P evs \<and>
        (case Inr (copyConfigDist st) of
           Inr t \<Rightarrow> trace t = trace st @ evs \<and> services t = services st
         | Inl t \<Rightarrow> \<exists>fin. T fin \<and> trace t = trace st @ evs @ fin @ escalation \<and>
                      services t = services st)"
    using assms
    by (intro exI [where x = "case files st ''config.lua'' of Some _ \<Rightarrow> [] | None \<Rightarrow>
          (case files st ''config.lua.dist'' of None \<Rightarrow> [] | Some d \<Rightarrow>
            [Log SPDLOG_INFO ''Copying config.lua.dist to config.lua'', WriteFile ''config.lua'' d])"])
       (simp add: copyConfigDist_def split: option.splits)
qed

lemma setWorldType_eq:
  "setWorldType env st =
     (case worldTypeOf (asLowerCaseString (getString env WORLD_TYPE)) of
        Some w \<Rightarrow> Inr (st\<lparr>trace := trace st @ [Call (SetWorldType w),
            Log SPDLOG_INFO (''World type set as '' @
              asUpperCaseString (asLowerCaseString (getString env WORLD_TYPE)))]\<rparr>)
      | None \<Rightarrow> Inl (st\<lparr>trace := trace st @
            [Log SPDLOG_ERROR (''Unknown world type: '' @ getString env WORLD_TYPE @
               '', valid world types are: pvp, no-pvp and pvp-enforced'')] @ escalation\<rparr>))"
  by (simp add: setWorldType_def worldTypeOf_def Let_def say_def emit_def startupErrorMessage_eq)

lemma fallible_setWorldType:
  assumes "\<And>l m. P (Log l m)" and "\<And>w. P (Call (SetWorldType w))"
    and "\<And>m. T [Log SPDLOG_ERROR m]"
  shows "fallible P T (setWorldType env)"
proof (rule fallibleI)
  fix st
  show "\<exists>evs. list_all P evs \<and>
        (case setWorldType env st of
           Inr t \<Rightarrow> trace t = trace st @ evs \<and> services t = services st
         | Inl t \<Rightarrow> \<exists>fin. T fin \<and> trace t = trace st @ evs @ fin @ escalation \<and>
                      services t = services st)"
  proof (cases "worldTypeOf (asLowerCaseString (getString env WORLD_TYPE))")
    case None
    with assms show ?thesis
      by (intro exI [where x = "[]"]) (simp add: setWorldType_eq)
  next
    case (Some w)
    with assms show ?thesis
      by (intro exI [where x = "[Call (SetWorldType w),
            Log SPDLOG_INFO (''World type set as '' @
              asUpperCaseString (asLowerCaseString (getString env WORLD_TYPE)))]"])
         (simp add: setWorldType_eq)
  qed
qed

lemmas fallible_rules = fallible_Nil fallible_Cons fallible_say fallible_skip fallible_load
  fallible_check fallible_if fallible_calling_say fallible_copy

lemma infallibleI:
  assumes "\<And>st. \<exists>evs t. list_all P evs \<and> f st = Inr t \<and> trace t = trace st @ evs \<and>
        files t = files st \<and> services st \<subseteq> services t"
  shows "infallible P f"
  using assms unfolding infallible_def by blast

lemma infallibleD:
  assumes "infallible P f"
  shows "\<exists>evs t. list_all P evs \<and> f st = Inr t \<and> trace t = trace st @ evs \<and>
        files t = files st \<and> services st \<subseteq> services t"
  using assms unfolding infallible_def by blast

lemma infallible_say: "P e \<Longrightarrow> infallible P (say e)"
  by (rule infallibleI, rule exI [where x = "[e]"]) (simp add: say_def)

lemma infallible_skip: "infallible P Inr"
  by (rule infallibleI, rule exI [where x = "[]"]) simp

lemma infallible_if:
  "(b \<Longrightarrow> infallible P f) \<Longrightarrow> (\<not> b \<Longrightarrow> infallible P g) \<Longrightarrow>
   infallible P (\<lambda>st. if b then f st else g st)"
  by (cases b) (simp_all add: infallible_def)

lemma infallible_services_add:
  assumes "P (Call (ServicesAdd p port))" and "\<And>m. P (Log SPDLOG_ERROR m)"
  shows "infallible P (services_add env p port)"
  using assms
  by (intro infallibleI exI [where x = "if bind_ok env p port then [Call (ServicesAdd p port)]
        else [Call (ServicesAdd p port), Log SPDLOG_ERROR (bind_error env p port)]"])
     (auto simp add: services_add_def Let_def)

lemma infallible_Nil: "infallible P (run_steps [])"
  by (rule infallibleI, rule exI [where x = "[]"]) simp

lemma infallible_Cons:
  assumes f: "infallible P f" and fs: "infallible P (run_steps fs)"
  shows "infallible P (run_steps (f # fs))"
proof (rule infallibleI)
  fix st
  from infallibleD [OF f, of st] obtain evs t where 1: "list_all P evs" "f st = Inr t"
    "trace t = trace st @ evs" "files t = files st" "services st \<subseteq> services t"
    by blast
  from infallibleD [OF fs, of t] obtain evs' u where 2: "list_all P evs'" "run_steps fs t = Inr u"
    "trace u = trace t @ evs'" "files u = files t" "services t \<subseteq> services u"
    by blast
  from 1 2 show "\<exists>evs t. list_all P evs \<and> run_steps (f # fs) st = Inr t \<and>
      trace t = trace st @ evs \<and> files t = files st \<and> services st \<subseteq> services t"
    by (intro exI [where x = "evs @ evs'"] exI [where x = u]) auto
qed

lemmas infallible_rules = infallible_Nil infallible_Cons infallible_say infallible_skip
  infallible_if infallible_services_add

lemma fallible_loadModules:
  assumes "\<And>c. init_call c \<Longrightarrow> C c"
  shows "fallible (block_event C env) (fail_tail C env) (loadModules env)"
  unfolding loadModules_def
  by (intro fallible_rules) (simp_all add: assms)

lemma fallible_init:
  assumes "\<And>c. init_call c \<Longrightarrow> C c"
  shows "fallible (block_event C env) (fail_tail C env) (run_steps (mainLoader_init env))"
  unfolding mainLoader_init_def initGlobalScopes_def
  by (intro fallible_rules fallible_loadModules) (simp_all add: assms)

lemma fallible_map:
  assumes "\<And>n. C (LoadMainMap n)" and "\<And>n. C (LoadCustomMap n)"
  shows "fallible (block_event C env) (fail_tail C env) (run_steps (mainLoader_map env))"
  unfolding mainLoader_map_def
  by (intro fallible_rules) (simp_all add: assms)

lemma infallible_start:
  assumes "\<And>c. start_call c \<Longrightarrow> C c"
  shows "infallible (block_event C env) (run_steps (mainLoader_start env))"
  unfolding mainLoader_start_def
  by (intro infallible_rules) (simp_all add: assms)

lemma fallible_checks:
  "fallible (block_event (\<lambda>c. True) env) (fail_tail (\<lambda>c. True) env)
     (run_steps (mainLoader_init env @ [setWorldType env] @ mainLoader_map env))"
  by (intro fallible_append fallible_Cons fallible_Nil fallible_init fallible_map
        fallible_setWorldType) simp_all

lemma mainLoader_eq:
  "mainLoader env st =
     (case run_steps (mainLoader_init env @ [setWorldType env] @ mainLoader_map env) st of
        Inl t \<Rightarrow> Inl t
      | Inr t \<Rightarrow> (case run_steps (mainLoader_start env) t of
                    Inl u \<Rightarrow> Inl u
                  | Inr u \<Rightarrow> Inr (emit NotifyAll u)))"
  by (simp add: mainLoader_def run_steps_append say_def split: sum.splits)

text \<open>The shape of every run of the loader.\<close>

lemma mainLoader_cases:
  "\<exists>evs. list_all (block_event (\<lambda>c. True) env) evs \<and>
     (case mainLoader env st of
        Inl t \<Rightarrow> (\<exists>fin. fail_tail (\<lambda>c. True) env fin \<and> trace t = trace st @ evs @ fin @ escalation) \<and>
                 services t = services st
      | Inr t \<Rightarrow> trace t = trace st @ evs @ [NotifyAll] \<and> services st \<subseteq> services t)"
proof (cases "run_steps (mainLoader_init env @ [setWorldType env] @ mainLoader_map env) st")
  case (Inl t)
  from fallible_Inl [OF fallible_checks Inl] obtain evs fin
    where "list_all (block_event (\<lambda>c. True) env) evs" "fail_tail (\<lambda>c. True) env fin"
      "trace t = trace st @ evs @ fin @ escalation" "services t = services st"
    by blast
  with Inl show ?thesis
    by (intro exI [where x = evs]) (auto simp add: mainLoader_eq)
next
  case (Inr t)
  from fallible_Inr [OF fallible_checks Inr] obtain evs
    where 1: "list_all (block_event (\<lambda>c. True) env) evs" "trace t = trace st @ evs"
      "services t = services st"
    by blast
  from infallibleD [OF infallible_start, of "\<lambda>c. True" env t] obtain evs' u
    where 2: "list_all (block_event (\<lambda>c. True) env) evs'"
      "run_steps (mainLoader_start env) t = Inr u" "trace u = trace t @ evs'"
      "services t \<subseteq> services u"
    by blast
  from Inr 1 2 show ?thesis
    by (intro exI [where x = "evs @ evs'"]) (simp add: mainLoader_eq)
qed

lemma block_event_cases:
  "block_event C env e \<Longrightarrow>
     is_log e \<or> (\<exists>c. e = Call c \<and> C c \<and> (mandatory c \<longrightarrow> ok env c)) \<or>
     (\<exists>d. e = WriteFile ''config.lua'' d) \<or> e = Start g_databaseTasks"
  by (cases e) simp_all

lemma fail_tail_cases:
  "fail_tail C env fin \<Longrightarrow>
     (\<exists>c logs. fin = Call c # logs \<and> C c \<and> mandatory c \<and> \<not> ok env c \<and> list_all is_log logs) \<or>
     list_all is_log fin"
  by (induction C env fin rule: fail_tail.induct) simp_all

lemma is_log_quiet: "is_log e \<Longrightarrow> quiet e"
  by (cases e) simp_all

lemma list_all_is_log_quiet: "list_all is_log es \<Longrightarrow> list_all quiet es"
  by (induction es) (simp_all add: is_log_quiet)

lemma NotifyAll_notin_block: "list_all (block_event C env) evs \<Longrightarrow> NotifyAll \<notin> set evs"
  by (induction evs) (auto dest: block_event_cases)

lemma NotifyAll_notin_logs: "list_all is_log es \<Longrightarrow> NotifyAll \<notin> set es"
  by (induction es) auto

lemma NotifyAll_notin_fail_tail: "fail_tail C env fin \<Longrightarrow> NotifyAll \<notin> set fin"
  by (auto dest!: fail_tail_cases NotifyAll_notin_logs)

subsection \<open>The handshake signal\<close>

text \<open>
  C1, as the code has it. Every run of the loader calls \<open>notify_all\<close> exactly once. On a
  mandatory-stage failure it is \<open>startupErrorMessage\<close> that calls it, after its log and before
  \<open>getchar\<close> and \<open>exit(-1)\<close>, and control never returns to the loader (\<open>Inl\<close>): the
  \<open>notify_all\<close> of line 428 is not reached. Otherwise the \<open>notify_all\<close> of line 428 is the
  last statement of the loader.
\<close>

theorem mainLoader_signals_once:
  "\<exists>evs. NotifyAll \<notin> set evs \<and>
     (case mainLoader env st of
        Inl t \<Rightarrow> trace t = trace st @ evs @
          [Log SPDLOG_ERROR ''The program will close after pressing the enter key...'',
           NotifyAll, GetChar, Exit (- 1)]
      | Inr t \<Rightarrow> trace t = trace st @ evs @ [NotifyAll])"
proof -
  from mainLoader_cases [of env st] obtain evs
    where evs: "list_all (block_event (\<lambda>c. True) env) evs"
    and c: "case mainLoader env st of
        Inl t \<Rightarrow> (\<exists>fin. fail_tail (\<lambda>c. True) env fin \<and> trace t = trace st @ evs @ fin @ escalation) \<and>
                 services t = services st
      | Inr t \<Rightarrow> trace t = trace st @ evs @ [NotifyAll] \<and> services st \<subseteq> services t"
    by blast
  show ?thesis
  proof (cases "mainLoader env st")
    case (Inl t)
    with c obtain fin where "fail_tail (\<lambda>c. True) env fin"
      "trace t = trace st @ evs @ fin @ escalation"
      by auto
    with evs Inl show ?thesis
      by (intro exI [where x = "evs @ fin"])
         (simp add: escalation_def NotifyAll_notin_block NotifyAll_notin_fail_tail)
  next
    case (Inr t)
    with c evs show ?thesis
      by (intro exI [where x = evs]) (simp add: NotifyAll_notin_block)
  qed
qed

text \<open>
  C1, as stated, fails: when \<open>config.lua\<close> cannot be loaded the loader ends in
  \<open>startupErrorMessage\<close>, and the handshake has been signalled on that path.
\<close>

theorem startupErrorMessage_notifies:
  "isl (mainLoader env_config_missing (main_startup (init Map.empty))) \<and>
   NotifyAll \<in> set (trace (main env_config_missing Map.empty))"
  by code_simp

subsection \<open>The process after a fatal signal\<close>

lemma set_interleave: "set (interleave sched xs ys) = set xs \<union> set ys"
  by (induction sched xs ys rule: interleave.induct) auto

lemma set_until_exit: "set (until_exit zs) \<subseteq> set zs"
  by (induction zs rule: until_exit.induct) auto

lemma until_exit_ends:
  assumes "Exit c \<in> set zs" and "\<forall>c'. Exit c' \<in> set zs \<longrightarrow> c' = c"
  shows "\<exists>p. until_exit zs = p @ [Exit c]"
  using assms
proof (induction zs)
  case Nil
  then show ?case by simp
next
  case (Cons z zs)
  show ?case
  proof (cases "\<exists>c'. z = Exit c'")
    case True
    then obtain c' where z: "z = Exit c'" by blast
    with Cons.prems have "c' = c" by simp
    with z show ?thesis by (intro exI [where x = "[]"]) simp
  next
    case False
    then have u: "until_exit (z # zs) = z # until_exit zs"
      by (cases z) simp_all
    from False Cons.prems have "Exit c \<in> set zs" and "\<forall>c'. Exit c' \<in> set zs \<longrightarrow> c' = c"
      by auto
    from Cons.IH [OF this] obtain p where "until_exit zs = p @ [Exit c]" by blast
    with u show ?thesis by (intro exI [where x = "z # p"]) simp
  qed
qed

lemma events_before_first: "x \<notin> set xs \<Longrightarrow> events_before x (xs @ x # ys) = xs"
  by (induction xs) (auto simp add: events_before_def)

lemma events_after_first: "x \<notin> set xs \<Longrightarrow> events_after x (xs @ x # ys) = ys"
  by (induction xs) (auto simp add: events_after_def)

lemma quiet_kind:
  "quiet e \<Longrightarrow> (\<forall>c. e \<noteq> Call c) \<and> \<not> is_write e \<and> e \<noteq> Run \<and> (\<forall>w. e \<noteq> Join w) \<and>
     \<not> failed env e"
  by (cases e) simp_all

text \<open>
  When the loader ends in \<open>startupErrorMessage\<close>, the trace of the process is that of the
  loader up to its \<open>notify_all\<close>, followed by what the two threads do until the first
  \<open>exit\<close>: nothing but \<open>getchar\<close>, the error log and the two shutdown requests of the main
  thread, and at the end \<open>exit(-1)\<close>.
\<close>

lemma main_fatal:
  assumes "mainLoader env (main_startup (init fs)) = Inl t"
  shows "\<exists>evs fin post.
           list_all (block_event (\<lambda>c. True) env) evs \<and> fail_tail (\<lambda>c. True) env fin \<and>
           trace t = trace (main_startup (init fs)) @ evs @ fin @ escalation \<and>
           trace (main env fs) = trace (main_startup (init fs)) @ evs @ fin @
             [Log SPDLOG_ERROR ''The program will close after pressing the enter key...'',
              NotifyAll] @ post \<and>
           trace (main env fs) = events_before NotifyAll (trace t) @ NotifyAll # post \<and>
           list_all quiet post \<and> (\<exists>p. post = p @ [Exit (- 1)]) \<and>
           services t = {} \<and> services (main env fs) = {} \<and> files (main env fs) = files t"
proof -
  let ?st = "main_startup (init fs)"
  let ?close = "Log SPDLOG_ERROR ''The program will close after pressing the enter key...''"
  let ?resume = "[Log SPDLOG_ERROR ''No services running. The server is NOT online!'',
      Shutdown g_databaseTasks, Shutdown g_dispatcher, Exit (- 1)]"
  let ?post = "until_exit (interleave (schedule env) [GetChar, Exit (- 1)] ?resume)"
  from mainLoader_cases [of env ?st] assms obtain evs fin
    where evs: "list_all (block_event (\<lambda>c. True) env) evs"
      and fin: "fail_tail (\<lambda>c. True) env fin"
      and t: "trace t = trace ?st @ evs @ fin @ escalation"
      and sv: "services t = services ?st"
    by auto
  let ?X = "trace ?st @ evs @ fin @ [?close]"
  have split: "trace t = ?X @ NotifyAll # [GetChar, Exit (- 1)]"
    by (simp add: t escalation_def)
  have fresh: "NotifyAll \<notin> set ?X"
    using NotifyAll_notin_block [OF evs] NotifyAll_notin_fail_tail [OF fin]
    by (simp add: main_startup_def init_def)
  have before: "events_before NotifyAll (trace t) = ?X"
    unfolding split by (rule events_before_first [OF fresh])
  have after: "events_after NotifyAll (trace t) = [GetChar, Exit (- 1)]"
    unfolding split by (rule events_after_first [OF fresh])
  from sv have none: "services t = {}"
    by (simp add: main_startup_def init_def)
  then have resume: "trace (main_resume env (t\<lparr>trace := []\<rparr>)) = ?resume"
    by (simp add: main_resume_def is_running_def)
  from assms have main: "main env fs = t\<lparr>trace := ?X @ NotifyAll # ?post\<rparr>"
    by (simp add: main_def before after resume)
  have "set ?post \<subseteq> set [GetChar, Exit (- 1)] \<union> set ?resume"
    using set_until_exit [of "interleave (schedule env) [GetChar, Exit (- 1)] ?resume"]
    by (simp only: set_interleave)
  then have quiet: "list_all quiet ?post"
    by (auto simp add: list_all_iff)
  have ends: "\<exists>p. ?post = p @ [Exit (- 1)]"
    by (rule until_exit_ends) (auto simp add: set_interleave)
  from evs fin t before quiet ends none show ?thesis
    by (intro exI [where x = evs] exI [where x = fin] exI [where x = ?post])
       (simp add: main)
qed

lemma exit_code_fatal:
  assumes "mainLoader env (main_startup (init fs)) = Inl t"
  shows "exit_code (main env fs) = Some (- 1)"
proof -
  from main_fatal [OF assms] obtain evs fin p
    where "trace (main env fs) = trace (main_startup (init fs)) @ evs @ fin @
             [Log SPDLOG_ERROR ''The program will close after pressing the enter key...'',
              NotifyAll] @ p @ [Exit (- 1)]"
    by auto
  then show ?thesis by (simp add: exit_code_def)
qed


lemma main_services_files:
  "services (main env fs) = services (final (mainLoader env (main_startup (init fs))))"
  "files (main env fs) = files (final (mainLoader env (main_startup (init fs))))"
proof -
  show "services (main env fs) = services (final (mainLoader env (main_startup (init fs))))"
  proof (cases "mainLoader env (main_startup (init fs))")
    case (Inl t)
    from main_fatal [OF Inl] Inl show ?thesis by auto
  next
    case (Inr t)
    then show ?thesis by (simp add: main_def main_resume_def)
  qed
  show "files (main env fs) = files (final (mainLoader env (main_startup (init fs))))"
  proof (cases "mainLoader env (main_startup (init fs))")
    case (Inl t)
    from main_fatal [OF Inl] Inl show ?thesis by auto
  next
    case (Inr t)
    then show ?thesis by (simp add: main_def main_resume_def)
  qed
qed

subsection \<open>Workers started before the loader is submitted\<close>

lemma main_trace_prefix:
  "\<exists>post. trace (main env fs) = trace (main_startup (init fs)) @ post"
proof -
  from mainLoader_cases [of env "main_startup (init fs)"] obtain evs
    where c: "case mainLoader env (main_startup (init fs)) of
        Inl t \<Rightarrow> (\<exists>fin. fail_tail (\<lambda>c. True) env fin \<and>
                   trace t = trace (main_startup (init fs)) @ evs @ fin @ escalation) \<and>
                 services t = services (main_startup (init fs))
      | Inr t \<Rightarrow> trace t = trace (main_startup (init fs)) @ evs @ [NotifyAll] \<and>
                 services (main_startup (init fs)) \<subseteq> services t"
    by blast
  show ?thesis
  proof (cases "mainLoader env (main_startup (init fs))")
    case (Inl t)
    from main_fatal [OF Inl] show ?thesis by auto
  next
    case (Inr t)
    with c show ?thesis by (auto simp add: main_def main_resume_def)
  qed
qed

text \<open>
  C3, as the code has it. Before \<open>addTask\<close> submits the loader, \<open>main\<close> has started the
  dispatcher and then the scheduler, and no other worker: the events of the process before
  \<open>AddTask\<close> are the same in every run, and \<open>Start g_databaseTasks\<close> is not among them.
  The database tasks are started by the loader itself (\<open>loadModules\<close>, line 195).
\<close>

theorem workers_started_before_submission:
  "events_before AddTask (trace (main env fs)) =
     [Call (SetPattern ''[%Y-%d-%m %H:%M:%S.%e] [%^%l%$] %v ''), Call ToggleForceCloseButton,
      Call SetNewHandler, Start g_dispatcher, Start g_scheduler] \<and>
   AddTask \<in> set (trace (main env fs))"
proof -
  from main_trace_prefix obtain post
    where "trace (main env fs) = trace (main_startup (init fs)) @ post"
    by blast
  then show ?thesis
    by (simp add: events_before_def main_startup_def init_def)
qed

text \<open>
  C3, as stated, fails: in the run where every stage succeeds, the database tasks have not
  been started when the loader is submitted; they are started after the submission.
\<close>

theorem databaseTasks_started_by_pipeline:
  "Start g_databaseTasks \<notin> set (events_before AddTask (trace (main env_ok Map.empty))) \<and>
   AddTask \<in> set (events_before (Start g_databaseTasks) (trace (main env_ok Map.empty))) \<and>
   Start g_databaseTasks \<in> set (trace (main env_ok Map.empty))"
  by code_simp

subsection \<open>Exit codes\<close>

lemma exit_code_main_resume:
  "exit_code (main_resume env st) = Some (if is_running st then 0 else - 1)"
  by (simp add: main_resume_def exit_code_def)

text \<open>
  C4. When the loader ends in \<open>startupErrorMessage\<close> (a mandatory stage failed) the process
  exits with -1, and no service is bound then. When the loader returns, the process exits
  with -1 if no service runs, and otherwise \<open>main\<close> returns 0 once the serve loop and the
  joins have returned.
\<close>

theorem exit_codes:
  "case mainLoader env (main_startup (init fs)) of
     Inl t \<Rightarrow> \<not> is_running t \<and> exit_code (main env fs) = Some (- 1)
   | Inr t \<Rightarrow> exit_code (main env fs) = Some (if is_running t then 0 else - 1)"
proof (cases "mainLoader env (main_startup (init fs))")
  case (Inl t)
  from main_fatal [OF Inl] have "\<not> is_running t"
    by (auto simp add: is_running_def)
  with Inl exit_code_fatal [OF Inl] show ?thesis by simp
next
  case (Inr t)
  then show ?thesis by (simp add: main_def exit_code_main_resume)
qed

theorem exit_codes_witness:
  "exit_code (main env_ok Map.empty) = Some 0 \<and>
   exit_code (main env_database_down Map.empty) = Some (- 1) \<and>
   exit_code (main env_ports_in_use Map.empty) = Some (- 1)"
proof -
  let ?st = "main_startup (init Map.empty)"
  have h: "\<not> isl (mainLoader env_ok ?st) \<and> is_running (final (mainLoader env_ok ?st)) \<and>
      isl (mainLoader env_database_down ?st) \<and>
      \<not> isl (mainLoader env_ports_in_use ?st) \<and>
      \<not> is_running (final (mainLoader env_ports_in_use ?st))"
    by code_simp
  from h obtain t where t: "mainLoader env_ok ?st = Inr t" "is_running t"
    by (cases "mainLoader env_ok ?st") simp_all
  from h obtain u where u: "mainLoader env_database_down ?st = Inl u"
    by (cases "mainLoader env_database_down ?st") simp_all
  from h obtain v where v: "mainLoader env_ports_in_use ?st = Inr v" "\<not> is_running v"
    by (cases "mainLoader env_ports_in_use ?st") simp_all
  from exit_codes [of env_ok Map.empty] t
  have 1: "exit_code (main env_ok Map.empty) = Some 0" by simp
  from exit_codes [of env_database_down Map.empty] u
  have 2: "exit_code (main env_database_down Map.empty) = Some (- 1)" by simp
  from exit_codes [of env_ports_in_use Map.empty] v
  have 3: "exit_code (main env_ports_in_use Map.empty) = Some (- 1)" by simp
  from 1 2 3 show ?thesis by blast
qed

subsection \<open>A failed mandatory stage ends the loader\<close>

lemma split_unique:
  assumes "pre @ x # post = A @ y # R" and "Q x"
    and "\<forall>e\<in>set A. \<not> Q e" and "\<forall>e\<in>set R. \<not> Q e"
  shows "post = R"
  using assms
proof (induction A arbitrary: pre)
  case Nil
  then show ?case by (cases pre) auto
next
  case (Cons a A)
  then show ?case by (cases pre) auto
qed

lemma block_event_not_failed: "block_event C env e \<Longrightarrow> \<not> failed env e"
  by (cases e) simp_all

lemma is_log_not_failed: "is_log e \<Longrightarrow> \<not> failed env e"
  by (cases e) simp_all

lemma block_events_not_failed:
  "list_all (block_event C env) evs \<Longrightarrow> \<forall>e\<in>set evs. \<not> failed env e"
  by (auto simp add: list_all_iff block_event_not_failed)

lemma logs_not_failed: "list_all is_log evs \<Longrightarrow> \<forall>e\<in>set evs. \<not> failed env e"
  by (auto simp add: list_all_iff is_log_not_failed)

lemma startup_not_failed: "\<forall>e\<in>set (trace (main_startup (init fs))). \<not> failed env e"
  by (simp add: main_startup_def init_def)

lemma failed_call_halts:
  assumes tr: "trace (main env fs) = pre @ Call c # post"
    and c: "mandatory c" "\<not> ok env c"
  shows "list_all quiet post \<and> exit_code (main env fs) = Some (- 1)"
proof -
  let ?st = "main_startup (init fs)"
  from c have failed: "failed env (Call c)" by simp
  from mainLoader_cases [of env ?st] obtain evs
    where evs: "list_all (block_event (\<lambda>c. True) env) evs"
    and cases: "case mainLoader env ?st of
        Inl t \<Rightarrow> (\<exists>fin. fail_tail (\<lambda>c. True) env fin \<and>
                   trace t = trace ?st @ evs @ fin @ escalation) \<and>
                 services t = services ?st
      | Inr t \<Rightarrow> trace t = trace ?st @ evs @ [NotifyAll] \<and> services ?st \<subseteq> services t"
    by blast
  show ?thesis
  proof (cases "mainLoader env ?st")
    case (Inr t)
    with cases have "trace (main env fs) = trace ?st @ evs @ [NotifyAll] @
        (if is_running t
         then [Log SPDLOG_INFO (getString env SERVER_NAME @ '' server online!''), Run,
               Join g_scheduler, Join g_databaseTasks, Join g_dispatcher, Return 0]
         else [Log SPDLOG_ERROR ''No services running. The server is NOT online!'',
               Shutdown g_databaseTasks, Shutdown g_dispatcher, Exit (- 1)])"
      by (simp add: main_def main_resume_def)
    with startup_not_failed [of fs env] block_events_not_failed [OF evs]
    have "\<forall>e\<in>set (trace (main env fs)). \<not> failed env e"
      by auto
    with tr failed show ?thesis by auto
  next
    case (Inl t)
    let ?close = "Log SPDLOG_ERROR ''The program will close after pressing the enter key...''"
    from main_fatal [OF Inl] obtain evs' fin post'
      where evs': "list_all (block_event (\<lambda>c. True) env) evs'"
        and fin: "fail_tail (\<lambda>c. True) env fin"
        and m: "trace (main env fs) = trace ?st @ evs' @ fin @ [?close, NotifyAll] @ post'"
        and q: "list_all quiet post'"
      by blast
    have code: "exit_code (main env fs) = Some (- 1)"
      by (rule exit_code_fatal [OF Inl])
    from q have rest: "\<forall>e\<in>set ([?close, NotifyAll] @ post'). \<not> failed env e"
      by (auto simp add: list_all_iff dest: quiet_kind)
    from q have restq: "list_all quiet ([?close, NotifyAll] @ post')"
      by simp
    from fail_tail_cases [OF fin] show ?thesis
    proof
      assume "list_all is_log fin"
      with m startup_not_failed [of fs env] block_events_not_failed [OF evs'] rest
      have "\<forall>e\<in>set (trace (main env fs)). \<not> failed env e"
        by (auto dest: logs_not_failed)
      with tr failed show ?thesis by auto
    next
      assume "\<exists>c logs. fin = Call c # logs \<and> True \<and> mandatory c \<and> \<not> ok env c \<and>
                list_all is_log logs"
      then obtain c' logs where fin': "fin = Call c' # logs" and logs: "list_all is_log logs"
        by blast
      from tr m fin'
      have eq: "pre @ Call c # post =
          (trace ?st @ evs') @ Call c' # (logs @ [?close, NotifyAll] @ post')"
        by simp
      have A: "\<forall>e\<in>set (trace ?st @ evs'). \<not> failed env e"
        using startup_not_failed [of fs env] block_events_not_failed [OF evs'] by auto
      have R: "\<forall>e\<in>set (logs @ [?close, NotifyAll] @ post'). \<not> failed env e"
        using logs_not_failed [OF logs] rest by auto
      from split_unique [OF eq failed A R] have "post = logs @ [?close, NotifyAll] @ post'" .
      with logs code restq show ?thesis
        by (simp add: list_all_is_log_quiet)
    qed
  qed
qed


lemma worldTypeOf_None:
  "worldTypeOf w = None \<longleftrightarrow> w \<noteq> ''pvp'' \<and> w \<noteq> ''no-pvp'' \<and> w \<noteq> ''pvp-enforced''"
  by (simp add: worldTypeOf_def)

lemma invalid_world_type_fatal:
  assumes "run_steps (mainLoader_init env) st = Inr t"
    and "worldTypeOf (asLowerCaseString (getString env WORLD_TYPE)) = None"
  shows "mainLoader env st =
     Inl (t\<lparr>trace := trace t @
       [Log SPDLOG_ERROR (''Unknown world type: '' @ getString env WORLD_TYPE @
          '', valid world types are: pvp, no-pvp and pvp-enforced'')] @ escalation\<rparr>)"
  using assms by (simp add: mainLoader_def run_steps_append setWorldType_eq)

lemma Inr_final: "\<not> isl r \<Longrightarrow> r = Inr (final r)"
  by (cases r) (simp_all add: final_def)

text \<open>
  C8. Whenever a mandatory call is made and fails, nothing follows it in the trace of the
  process but log lines, the events of \<open>startupErrorMessage\<close> and the shutdown requests that
  the main thread makes once it is released: no later stage runs, in whatever order the two
  threads take their steps, and the process exits with -1. The world-type check, which is no
  external call, is the second part: when the stages before it have returned and the value
  is none of the three names, the loader logs the error, then the closing line, and signals;
  what follows is again nothing but such events, ending in \<open>exit(-1)\<close>.
\<close>

theorem mandatory_failure_halts:
  "(\<forall>pre c post.
      trace (main env fs) = pre @ Call c # post \<and> mandatory c \<and> \<not> ok env c \<longrightarrow>
      list_all quiet post \<and> exit_code (main env fs) = Some (- 1)) \<and>
   (\<forall>t. run_steps (mainLoader_init env) (main_startup (init fs)) = Inr t \<and>
      asLowerCaseString (getString env WORLD_TYPE) \<notin> {''pvp'', ''no-pvp'', ''pvp-enforced''} \<longrightarrow>
      (\<exists>post. trace (main env fs) = trace t @
         [Log SPDLOG_ERROR (''Unknown world type: '' @ getString env WORLD_TYPE @
            '', valid world types are: pvp, no-pvp and pvp-enforced''),
          Log SPDLOG_ERROR ''The program will close after pressing the enter key...'',
          NotifyAll] @ post \<and>
         list_all quiet post) \<and>
      exit_code (main env fs) = Some (- 1))"
proof (intro conjI allI impI)
  fix pre c post
  assume "trace (main env fs) = pre @ Call c # post \<and> mandatory c \<and> \<not> ok env c"
  then have "list_all quiet post \<and> exit_code (main env fs) = Some (- 1)"
    using failed_call_halts [of env fs pre c post] by blast
  then show "list_all quiet post" and "exit_code (main env fs) = Some (- 1)"
    by simp_all
next
  fix t
  assume a: "run_steps (mainLoader_init env) (main_startup (init fs)) = Inr t \<and>
      asLowerCaseString (getString env WORLD_TYPE) \<notin> {''pvp'', ''no-pvp'', ''pvp-enforced''}"
  let ?unknown = "Log SPDLOG_ERROR (''Unknown world type: '' @ getString env WORLD_TYPE @
          '', valid world types are: pvp, no-pvp and pvp-enforced'')"
  let ?close = "Log SPDLOG_ERROR ''The program will close after pressing the enter key...''"
  let ?u = "t\<lparr>trace := trace t @ [?unknown] @ escalation\<rparr>"
  from a have "worldTypeOf (asLowerCaseString (getString env WORLD_TYPE)) = None"
    by (simp add: worldTypeOf_None)
  with a have fatal: "mainLoader env (main_startup (init fs)) = Inl ?u"
    by (simp add: invalid_world_type_fatal)
  have "fallible (block_event (\<lambda>c. True) env) (fail_tail (\<lambda>c. True) env)
          (run_steps (mainLoader_init env))"
    by (rule fallible_init) simp
  from fallible_Inr [OF this] a obtain evs
    where evs: "list_all (block_event (\<lambda>c. True) env) evs"
      and t: "trace t = trace (main_startup (init fs)) @ evs"
    by blast
  have fresh: "NotifyAll \<notin> set (trace t @ [?unknown, ?close])"
    using NotifyAll_notin_block [OF evs] by (simp add: t main_startup_def init_def)
  have split: "trace ?u = (trace t @ [?unknown, ?close]) @ NotifyAll # [GetChar, Exit (- 1)]"
    by (simp add: escalation_def)
  from main_fatal [OF fatal] obtain post
    where m: "trace (main env fs) = events_before NotifyAll (trace ?u) @ NotifyAll # post"
      and q: "list_all quiet post"
    by blast
  have "events_before NotifyAll (trace ?u) = trace t @ [?unknown, ?close]"
    unfolding split by (rule events_before_first [OF fresh])
  with m q show "\<exists>post. trace (main env fs) = trace t @ [?unknown, ?close, NotifyAll] @ post \<and>
      list_all quiet post"
    by (intro exI [where x = post]) simp
  show "exit_code (main env fs) = Some (- 1)"
    by (rule exit_code_fatal [OF fatal])
qed

theorem mandatory_failure_halts_witness:
  "trace (main env_database_down Map.empty) =
     events_before (Call DatabaseConnect) (trace (main env_database_down Map.empty)) @
     Call DatabaseConnect #
       [Log SPDLOG_ERROR ''Failed to connect to database!'',
        Log SPDLOG_ERROR ''The program will close after pressing the enter key...'',
        NotifyAll, GetChar,
        Log SPDLOG_ERROR ''No services running. The server is NOT online!'',
        Shutdown g_databaseTasks, Shutdown g_dispatcher, Exit (- 1)] \<and>
   mandatory DatabaseConnect \<and> \<not> ok env_database_down DatabaseConnect \<and>
   list_all quiet
       [Log SPDLOG_ERROR ''Failed to connect to database!'',
        Log SPDLOG_ERROR ''The program will close after pressing the enter key...'',
        NotifyAll, GetChar,
        Log SPDLOG_ERROR ''No services running. The server is NOT online!'',
        Shutdown g_databaseTasks, Shutdown g_dispatcher, Exit (- 1)] \<and>
   exit_code (main env_database_down Map.empty) = Some (- 1) \<and>
   trace (main env_database_down_key_pressed Map.empty) =
     events_before (Call DatabaseConnect) (trace (main env_database_down Map.empty)) @
     Call DatabaseConnect #
       [Log SPDLOG_ERROR ''Failed to connect to database!'',
        Log SPDLOG_ERROR ''The program will close after pressing the enter key...'',
        NotifyAll, GetChar, Exit (- 1)] \<and>
   \<not> ok env_database_down_key_pressed DatabaseConnect \<and>
   exit_code (main env_database_down_key_pressed Map.empty) = Some (- 1) \<and>
   \<not> isl (run_steps (mainLoader_init env_world_type_invalid) (main_startup (init Map.empty))) \<and>
   asLowerCaseString (getString env_world_type_invalid WORLD_TYPE) \<notin>
     {''pvp'', ''no-pvp'', ''pvp-enforced''} \<and>
   exit_code (main env_world_type_invalid Map.empty) = Some (- 1)"
proof -
  let ?tail = "[Log SPDLOG_ERROR ''Failed to connect to database!'',
        Log SPDLOG_ERROR ''The program will close after pressing the enter key...'',
        NotifyAll, GetChar,
        Log SPDLOG_ERROR ''No services running. The server is NOT online!'',
        Shutdown g_databaseTasks, Shutdown g_dispatcher, Exit (- 1)]"
  let ?short = "[Log SPDLOG_ERROR ''Failed to connect to database!'',
        Log SPDLOG_ERROR ''The program will close after pressing the enter key...'',
        NotifyAll, GetChar, Exit (- 1)]"
  have h1: "trace (main env_database_down Map.empty) =
     events_before (Call DatabaseConnect) (trace (main env_database_down Map.empty)) @
     Call DatabaseConnect # ?tail \<and>
   mandatory DatabaseConnect \<and> \<not> ok env_database_down DatabaseConnect"
    by code_simp
  have k1: "trace (main env_database_down_key_pressed Map.empty) =
     events_before (Call DatabaseConnect) (trace (main env_database_down Map.empty)) @
     Call DatabaseConnect # ?short \<and>
   \<not> ok env_database_down_key_pressed DatabaseConnect"
    by code_simp
  have h2: "\<not> isl (run_steps (mainLoader_init env_world_type_invalid)
               (main_startup (init Map.empty))) \<and>
   asLowerCaseString (getString env_world_type_invalid WORLD_TYPE) \<notin>
     {''pvp'', ''no-pvp'', ''pvp-enforced''}"
    by code_simp
  from h2 have h3: "run_steps (mainLoader_init env_world_type_invalid)
        (main_startup (init Map.empty)) =
      Inr (final (run_steps (mainLoader_init env_world_type_invalid)
        (main_startup (init Map.empty))))"
    by (intro Inr_final) simp
  from h1 mandatory_failure_halts [of env_database_down Map.empty]
  have c1: "list_all quiet ?tail \<and> exit_code (main env_database_down Map.empty) = Some (- 1)"
    by blast
  from k1 h1 mandatory_failure_halts [of env_database_down_key_pressed Map.empty]
  have c3: "exit_code (main env_database_down_key_pressed Map.empty) = Some (- 1)"
    by blast
  from h2 h3 mandatory_failure_halts [of env_world_type_invalid Map.empty]
  have c2: "exit_code (main env_world_type_invalid Map.empty) = Some (- 1)"
    by blast
  from h1 k1 h2 c1 c2 c3 show ?thesis by blast
qed

subsection \<open>The world type\<close>












subsection \<open>The rent period\<close>

lemma with_rent_period_simps [simp]:
  "getString (with_rent_period env s) k = (if k = HOUSE_RENT_PERIOD then s else getString env k)"
  "getBoolean (with_rent_period env s) = getBoolean env"
  "getNumber (with_rent_period env s) = getNumber env"
  "ok (with_rent_period env s) = ok env"
  "what (with_rent_period env s) = what env"
  "getClientVersion (with_rent_period env s) = getClientVersion env"
  "bind_ok (with_rent_period env s) = bind_ok env"
  "bind_error (with_rent_period env s) = bind_error env"
  "is_root (with_rent_period env s) = is_root env"
  "STATUS_SERVER_NAME (with_rent_period env s) = STATUS_SERVER_NAME env"
  "STATUS_SERVER_VERSION (with_rent_period env s) = STATUS_SERVER_VERSION env"
  "STATUS_SERVER_DEVELOPERS (with_rent_period env s) = STATUS_SERVER_DEVELOPERS env"
  "getCompiler (with_rent_period env s) = getCompiler env"
  "getCppVersion (with_rent_period env s) = getCppVersion env"
  "getPlatform (with_rent_period env s) = getPlatform env"
  "build_date (with_rent_period env s) = build_date env"
  "build_time (with_rent_period env s) = build_time env"
  "schedule (with_rent_period env s) = schedule env"
  by (simp_all add: with_rent_period_def)

lemma calling_with_rent_period [simp]: "calling (with_rent_period env s) = calling env"
  by (simp add: fun_eq_iff calling_def)

lemma services_add_with_rent_period [simp]:
  "services_add (with_rent_period env s) = services_add env"
  by (simp add: fun_eq_iff services_add_def Let_def)

lemma loadModules_with_rent_period [simp]:
  "loadModules (with_rent_period env s) = loadModules env"
  by (simp add: loadModules_def cong: if_cong)

lemma setWorldType_with_rent_period [simp]:
  "setWorldType (with_rent_period env s) = setWorldType env"
  by (simp add: fun_eq_iff setWorldType_def cong: if_cong)

lemma checks_with_rent_period [simp]:
  "mainLoader_init (with_rent_period env s) = mainLoader_init env"
  "mainLoader_map (with_rent_period env s) = mainLoader_map env"
  by (simp_all add: mainLoader_init_def mainLoader_map_def cong: if_cong)









subsection \<open>The configuration file\<close>

declare not_write_def [simp]

lemma keeps_files_say: "keeps_files (say e)"
  by (simp add: keeps_files_def say_def)

lemma keeps_files_skip: "keeps_files Inr"
  by (simp add: keeps_files_def)

lemma keeps_files_load:
  "keeps_files (calling env c (\<lambda>loaded. modulesLoadHelper loaded name))"
  by (simp add: keeps_files_def calling_def modulesLoadHelper_def startupErrorMessage_eq Let_def)

lemma keeps_files_check: "keeps_files (calling env c (error_unless msg))"
  by (simp add: keeps_files_def calling_def error_unless_def startupErrorMessage_eq)

lemma keeps_files_calling_say:
  "keeps_files (calling env c (\<lambda>b st'. if \<not> b then say e st' else Inr st'))"
  by (simp add: keeps_files_def calling_def say_def)

lemma keeps_files_if:
  "(b \<Longrightarrow> keeps_files f) \<Longrightarrow> (\<not> b \<Longrightarrow> keeps_files g) \<Longrightarrow>
   keeps_files (\<lambda>st. if b then f st else g st)"
  by (cases b) (simp_all add: keeps_files_def)

lemma keeps_files_setWorldType: "keeps_files (setWorldType env)"
  by (simp add: keeps_files_def setWorldType_eq split: option.splits)

lemma keeps_files_services_add: "keeps_files (services_add env p port)"
  by (simp add: keeps_files_def services_add_def Let_def)

lemma keeps_files_Nil: "keeps_files (run_steps [])"
  by (simp add: keeps_files_def)

lemma keeps_files_Cons:
  "keeps_files f \<Longrightarrow> keeps_files (run_steps fs) \<Longrightarrow> keeps_files (run_steps (f # fs))"
  unfolding keeps_files_def
proof
  fix st
  assume f: "\<forall>st. files (final (f st)) = files st"
    and fs: "\<forall>st. files (final (run_steps fs st)) = files st"
  show "files (final (run_steps (f # fs) st)) = files st"
  proof (cases "f st")
    case (Inl t)
    with f [rule_format, of st] show ?thesis by simp
  next
    case (Inr t)
    with f [rule_format, of st] fs [rule_format, of t] show ?thesis by simp
  qed
qed

lemma keeps_files_append:
  "keeps_files (run_steps xs) \<Longrightarrow> keeps_files (run_steps ys) \<Longrightarrow>
   keeps_files (run_steps (xs @ ys))"
  unfolding keeps_files_def
proof
  fix st
  assume xs: "\<forall>st. files (final (run_steps xs st)) = files st"
    and ys: "\<forall>st. files (final (run_steps ys st)) = files st"
  show "files (final (run_steps (xs @ ys) st)) = files st"
  proof (cases "run_steps xs st")
    case (Inl t)
    with xs [rule_format, of st] show ?thesis by (simp add: run_steps_append)
  next
    case (Inr t)
    with xs [rule_format, of st] ys [rule_format, of t] show ?thesis
      by (simp add: run_steps_append)
  qed
qed

lemmas keeps_files_rules = keeps_files_Nil keeps_files_Cons keeps_files_append keeps_files_say
  keeps_files_skip keeps_files_load keeps_files_check keeps_files_calling_say keeps_files_if
  keeps_files_setWorldType keeps_files_services_add

lemma keeps_files_loadModules: "keeps_files (loadModules env)"
  unfolding loadModules_def by (intro keeps_files_rules)

lemma keeps_files_rest:
  "keeps_files (run_steps (loadModules env # setWorldType env #
     mainLoader_map env @ mainLoader_start env @ [say NotifyAll]))"
  unfolding mainLoader_map_def mainLoader_start_def
  by (intro keeps_files_rules keeps_files_loadModules)

lemma extends_fallible:
  assumes f: "fallible P (list_all P) f" and esc: "list_all P escalation"
  shows "extends P f"
  unfolding extends_def
proof
  fix st
  show "\<exists>more. trace (final (f st)) = trace st @ more \<and> list_all P more"
  proof (cases "f st")
    case (Inl t)
    from fallible_Inl [OF f Inl] esc show ?thesis using Inl by auto
  next
    case (Inr t)
    from fallible_Inr [OF f Inr] show ?thesis using Inr by auto
  qed
qed

lemma extends_infallible: "infallible P f \<Longrightarrow> extends P f"
  unfolding extends_def
proof
  fix st
  assume f: "infallible P f"
  from infallibleD [OF f, of st]
  show "\<exists>more. trace (final (f st)) = trace st @ more \<and> list_all P more"
    by auto
qed

lemma extends_say: "P e \<Longrightarrow> extends P (say e)"
  by (simp add: extends_def say_def)

lemma extends_Nil: "extends P (run_steps [])"
  by (simp add: extends_def)

lemma extends_Cons:
  assumes f: "extends P f" and fs: "extends P (run_steps fs)"
  shows "extends P (run_steps (f # fs))"
  unfolding extends_def
proof
  fix st
  from f obtain m where m: "trace (final (f st)) = trace st @ m" "list_all P m"
    unfolding extends_def by blast
  show "\<exists>more. trace (final (run_steps (f # fs) st)) = trace st @ more \<and> list_all P more"
  proof (cases "f st")
    case (Inl t)
    with m show ?thesis by simp
  next
    case (Inr t)
    from fs obtain m' where "trace (final (run_steps fs t)) = trace t @ m'" "list_all P m'"
      unfolding extends_def by blast
    with m Inr show ?thesis by simp
  qed
qed

lemma extends_append:
  assumes xs: "extends P (run_steps xs)" and ys: "extends P (run_steps ys)"
  shows "extends P (run_steps (xs @ ys))"
  unfolding extends_def
proof
  fix st
  from xs obtain m where m: "trace (final (run_steps xs st)) = trace st @ m" "list_all P m"
    unfolding extends_def by blast
  show "\<exists>more. trace (final (run_steps (xs @ ys) st)) = trace st @ more \<and> list_all P more"
  proof (cases "run_steps xs st")
    case (Inl t)
    with m show ?thesis by (simp add: run_steps_append)
  next
    case (Inr t)
    from ys obtain m' where "trace (final (run_steps ys t)) = trace t @ m'" "list_all P m'"
      unfolding extends_def by blast
    with m Inr show ?thesis by (simp add: run_steps_append)
  qed
qed

lemma starts_with_Cons:
  assumes f: "starts_with P e f" and fs: "extends P (run_steps fs)"
  shows "starts_with P e (run_steps (f # fs))"
  unfolding starts_with_def
proof
  fix st
  from f obtain m where m: "trace (final (f st)) = trace st @ e # m" "list_all P m"
    unfolding starts_with_def by blast
  show "\<exists>more. trace (final (run_steps (f # fs) st)) = trace st @ e # more \<and> list_all P more"
  proof (cases "f st")
    case (Inl t)
    with m show ?thesis by simp
  next
    case (Inr t)
    from fs obtain m' where "trace (final (run_steps fs t)) = trace t @ m'" "list_all P m'"
      unfolding extends_def by blast
    with m Inr show ?thesis by simp
  qed
qed

lemma starts_with_load:
  "starts_with not_write (Call c) (calling env c (\<lambda>loaded. modulesLoadHelper loaded name))"
  by (simp add: starts_with_def calling_def modulesLoadHelper_def startupErrorMessage_eq Let_def
      escalation_def)

lemma not_write_escalation: "list_all not_write escalation"
  by (simp add: escalation_def)

lemma starts_with_loadModules: "starts_with not_write (Call ConfigLoad) (loadModules env)"
  unfolding loadModules_def
  by (intro starts_with_Cons starts_with_load extends_fallible not_write_escalation
        fallible_rules)
     simp_all

lemma extends_setWorldType: "extends not_write (setWorldType env)"
  by (intro extends_fallible not_write_escalation fallible_setWorldType) simp_all

lemma extends_map: "extends not_write (run_steps (mainLoader_map env))"
  unfolding mainLoader_map_def
  by (intro extends_fallible not_write_escalation fallible_rules) simp_all

lemma extends_start: "extends not_write (run_steps (mainLoader_start env))"
  unfolding mainLoader_start_def
  by (intro extends_infallible infallible_rules) simp_all

lemma starts_with_rest:
  "starts_with not_write (Call ConfigLoad)
     (run_steps (loadModules env # setWorldType env #
        mainLoader_map env @ mainLoader_start env @ [say NotifyAll]))"
  by (intro starts_with_Cons starts_with_loadModules extends_Cons extends_append extends_Nil
        extends_say extends_setWorldType extends_map extends_start)
     simp

lemma mainLoader_after_copy:
  "mainLoader env st =
     run_steps (loadModules env # setWorldType env #
        mainLoader_map env @ mainLoader_start env @ [say NotifyAll])
       (emit (Call InitGlobalScopes) (copyConfigDist (st\<lparr>trace := trace st @
          [Call (SetGameState GAME_STATE_STARTUP), Call Srand,
           Log SPDLOG_INFO (STATUS_SERVER_NAME env @ '' - Version '' @ STATUS_SERVER_VERSION env),
           Log SPDLOG_INFO (''Compiled with '' @ getCompiler env @ '', linked with standard '' @
             getCppVersion env),
           Log SPDLOG_INFO (''Compiled on '' @ build_date env @ '' '' @ build_time env @
             '' for platform '' @ getPlatform env @ [CHR 0x0A]),
           Log SPDLOG_INFO (''A server developed by: '' @ STATUS_SERVER_DEVELOPERS env),
           Log SPDLOG_INFO (''Visit our website for updates, support, and resources: '' @
             ''https://docs.opentibiabr.org/'')]\<rparr>)))"
  by (simp add: mainLoader_def mainLoader_init_def say_def initGlobalScopes_def emit_def)


lemma filter_not_write: "list_all not_write es \<Longrightarrow> filter is_write es = []"
  by (induction es) simp_all

text \<open>
  The process continues the beginning of the loader's trace, as far as that holds no signal,
  and what follows a beginning after which the loader writes no file writes no file either.
\<close>

lemma main_after_loader_writes:
  assumes tr: "trace (final (mainLoader env (main_startup (init fs)))) = A @ rest"
    and fresh: "NotifyAll \<notin> set A" and rest: "list_all not_write rest"
  shows "\<exists>post. trace (main env fs) = A @ post \<and> list_all not_write post"
proof (cases "mainLoader env (main_startup (init fs))")
  case (Inl t)
  from main_fatal [OF Inl] obtain post
    where m: "trace (main env fs) = events_before NotifyAll (trace t) @ NotifyAll # post"
      and q: "list_all quiet post"
    by blast
  from tr Inl have t: "trace t = A @ rest" by (simp add: final_def)
  from fresh have "events_before NotifyAll (A @ rest) = A @ takeWhile (\<lambda>e. e \<noteq> NotifyAll) rest"
    unfolding events_before_def by (intro takeWhile_append2) auto
  with m t have 1: "trace (main env fs) =
      A @ (takeWhile (\<lambda>e. e \<noteq> NotifyAll) rest @ NotifyAll # post)"
    by simp
  from rest have 2: "list_all not_write (takeWhile (\<lambda>e. e \<noteq> NotifyAll) rest)"
    by (auto simp add: list_all_iff dest: set_takeWhileD)
  from q have 3: "list_all not_write post"
    by (auto simp add: list_all_iff not_write_def dest: quiet_kind)
  from 1 2 3 show ?thesis
    by (intro exI [where x = "takeWhile (\<lambda>e. e \<noteq> NotifyAll) rest @ NotifyAll # post"])
       (simp add: not_write_def)
next
  case (Inr t)
  with tr rest show ?thesis
    by (intro exI [where x = "rest @ (if is_running t
         then [Log SPDLOG_INFO (getString env SERVER_NAME @ '' server online!''), Run,
               Join g_scheduler, Join g_databaseTasks, Join g_dispatcher, Return 0]
         else [Log SPDLOG_ERROR ''No services running. The server is NOT online!'',
               Shutdown g_databaseTasks, Shutdown g_dispatcher, Exit (- 1)])"])
       (simp add: main_def main_resume_def emit_def final_def)
qed

text \<open>
  C10. At the end of every run the files are those of the start, except that a missing
  \<open>config.lua\<close> has been created with the contents of an existing \<open>config.lua.dist\<close>. That
  one write is the only write of the whole run, there is none when \<open>config.lua\<close> exists or
  both files are missing, and every write precedes the first call that loads the
  configuration.
\<close>

theorem config_copied_before_loading:
  "files (main env fs) =
     (case fs ''config.lua'' of
        Some c \<Rightarrow> fs
      | None \<Rightarrow> (case fs ''config.lua.dist'' of
                   Some d \<Rightarrow> fs(''config.lua'' \<mapsto> d)
                 | None \<Rightarrow> fs)) \<and>
   filter is_write (trace (main env fs)) =
     (case fs ''config.lua'' of
        Some c \<Rightarrow> []
      | None \<Rightarrow> (case fs ''config.lua.dist'' of
                   Some d \<Rightarrow> [WriteFile ''config.lua'' d]
                 | None \<Rightarrow> [])) \<and>
   filter is_write (events_before (Call ConfigLoad) (trace (main env fs))) =
     filter is_write (trace (main env fs)) \<and>
   Call ConfigLoad \<in> set (trace (main env fs))"
proof -
  let ?st = "main_startup (init fs)"
  let ?b = "?st\<lparr>trace := trace ?st @
          [Call (SetGameState GAME_STATE_STARTUP), Call Srand,
           Log SPDLOG_INFO (STATUS_SERVER_NAME env @ '' - Version '' @ STATUS_SERVER_VERSION env),
           Log SPDLOG_INFO (''Compiled with '' @ getCompiler env @ '', linked with standard '' @
             getCppVersion env),
           Log SPDLOG_INFO (''Compiled on '' @ build_date env @ '' '' @ build_time env @
             '' for platform '' @ getPlatform env @ [CHR 0x0A]),
           Log SPDLOG_INFO (''A server developed by: '' @ STATUS_SERVER_DEVELOPERS env),
           Log SPDLOG_INFO (''Visit our website for updates, support, and resources: '' @
             ''https://docs.opentibiabr.org/'')]\<rparr>"
  let ?c = "emit (Call InitGlobalScopes) (copyConfigDist ?b)"
  let ?rest = "run_steps (loadModules env # setWorldType env #
        mainLoader_map env @ mainLoader_start env @ [say NotifyAll])"
  have loader: "mainLoader env ?st = ?rest ?c"
    by (rule mainLoader_after_copy)
  from starts_with_rest [of env] obtain more
    where more: "trace (final (?rest ?c)) = trace ?c @ Call ConfigLoad # more"
      "list_all not_write more"
    unfolding starts_with_def by blast
  have fresh: "Call ConfigLoad \<notin> set (trace ?c)"
    by (simp add: copyConfigDist_def main_startup_def init_def emit_def split: option.splits)
  have "NotifyAll \<notin> set (trace ?c)"
    by (simp add: copyConfigDist_def main_startup_def init_def emit_def split: option.splits)
  then have "NotifyAll \<notin> set (trace ?c @ [Call ConfigLoad])"
    by simp
  moreover from loader more(1)
  have "trace (final (mainLoader env ?st)) = (trace ?c @ [Call ConfigLoad]) @ more"
    by simp
  ultimately obtain post
    where post: "trace (main env fs) = (trace ?c @ [Call ConfigLoad]) @ post"
      "list_all not_write post"
    using main_after_loader_writes [OF _ _ more(2), of env fs "trace ?c @ [Call ConfigLoad]"]
    by blast
  then have tr: "trace (main env fs) = trace ?c @ Call ConfigLoad # post"
    by simp
  have before: "events_before (Call ConfigLoad) (trace (main env fs)) = trace ?c"
    unfolding tr by (rule events_before_first [OF fresh])
  have writes: "filter is_write (trace ?c) =
     (case fs ''config.lua'' of
        Some c \<Rightarrow> []
      | None \<Rightarrow> (case fs ''config.lua.dist'' of
                   Some d \<Rightarrow> [WriteFile ''config.lua'' d]
                 | None \<Rightarrow> []))"
    by (simp add: copyConfigDist_def main_startup_def init_def emit_def split: option.splits)
  have all_writes: "filter is_write (trace (main env fs)) = filter is_write (trace ?c)"
    unfolding tr using post(2) by (simp add: filter_not_write)
  from keeps_files_rest [of env] have "files (final (?rest ?c)) = files ?c"
    unfolding keeps_files_def by blast
  with loader have "files (final (mainLoader env ?st)) = files (copyConfigDist ?b)"
    by simp
  moreover have "files (main env fs) = files (final (mainLoader env ?st))"
    by (rule main_services_files)
  ultimately have files: "files (main env fs) =
     (case fs ''config.lua'' of
        Some c \<Rightarrow> fs
      | None \<Rightarrow> (case fs ''config.lua.dist'' of
                   Some d \<Rightarrow> fs(''config.lua'' \<mapsto> d)
                 | None \<Rightarrow> fs))"
    by (simp add: copyConfigDist_def main_startup_def init_def emit_def split: option.splits)
  from files writes all_writes before tr show ?thesis
    by simp
qed


theorem config_copied_before_loading_witness:
  "fs_dist_only ''config.lua'' = None \<and>
   fs_dist_only ''config.lua.dist'' = Some ''worldType = pvp'' \<and>
   files (main env_ok fs_dist_only) ''config.lua'' = Some ''worldType = pvp'' \<and>
   files (main env_ok fs_dist_only) ''config.lua.dist'' = Some ''worldType = pvp'' \<and>
   filter is_write (trace (main env_ok fs_dist_only)) =
     [WriteFile ''config.lua'' ''worldType = pvp''] \<and>
   filter is_write (events_before (Call ConfigLoad) (trace (main env_ok fs_dist_only))) =
     [WriteFile ''config.lua'' ''worldType = pvp'']"
  using config_copied_before_loading [of env_ok fs_dist_only]
  by (simp add: fs_dist_only_def)

subsection \<open>The main thread after its wait\<close>

lemma block_event_kind:
  "list_all (block_event C env) evs \<Longrightarrow> e \<in> set evs \<Longrightarrow>
     is_log e \<or> (\<exists>c. e = Call c) \<or> (\<exists>d. e = WriteFile ''config.lua'' d) \<or>
     e = Start g_databaseTasks"
  by (induction evs) (auto dest: block_event_cases)

lemma fail_tail_kind: "fail_tail C env fin \<Longrightarrow> e \<in> set fin \<Longrightarrow> is_log e \<or> (\<exists>c. e = Call c)"
  by (auto dest!: fail_tail_cases simp add: list_all_iff)

text \<open>
  C7. In every run that enters the serve loop, the process ends with \<open>run\<close>, the join of
  the scheduler, the join of the database tasks, the join of the dispatcher, and the return
  of 0, in that order, and nothing is joined before: the three joins are consecutive calls
  of the main thread, each made when the one before has returned.
\<close>

theorem joins_in_order:
  assumes "Run \<in> set (trace (main env fs))"
  shows "\<exists>pre. trace (main env fs) =
           pre @ [Run, Join g_scheduler, Join g_databaseTasks, Join g_dispatcher, Return 0] \<and>
           (\<forall>w. Join w \<notin> set pre)"
proof -
  let ?st = "main_startup (init fs)"
  from mainLoader_cases [of env ?st] obtain evs
    where evs: "list_all (block_event (\<lambda>c. True) env) evs"
    and cases: "case mainLoader env ?st of
        Inl t \<Rightarrow> (\<exists>fin. fail_tail (\<lambda>c. True) env fin \<and>
                   trace t = trace ?st @ evs @ fin @ escalation) \<and>
                 services t = services ?st
      | Inr t \<Rightarrow> trace t = trace ?st @ evs @ [NotifyAll] \<and> services ?st \<subseteq> services t"
    by blast
  have no_run: "Run \<notin> set evs"
    using block_event_kind [OF evs, of Run] by auto
  have no_join: "Join w \<notin> set evs" for w
    using block_event_kind [OF evs, of "Join w"] by auto
  have startup: "Run \<notin> set (trace ?st)" "Join w \<notin> set (trace ?st)" for w
    by (simp_all add: main_startup_def init_def)
  show ?thesis
  proof (cases "mainLoader env ?st")
    case (Inl t)
    from main_fatal [OF Inl] obtain evs' fin post
      where evs': "list_all (block_event (\<lambda>c. True) env) evs'"
        and fin: "fail_tail (\<lambda>c. True) env fin"
        and m: "trace (main env fs) = trace ?st @ evs' @ fin @
             [Log SPDLOG_ERROR ''The program will close after pressing the enter key...'',
              NotifyAll] @ post"
        and q: "list_all quiet post"
      by blast
    have "Run \<notin> set evs'" using block_event_kind [OF evs', of Run] by auto
    moreover have "Run \<notin> set fin" using fail_tail_kind [OF fin, of Run] by auto
    moreover from q have "Run \<notin> set post"
      by (auto simp add: list_all_iff dest: quiet_kind)
    ultimately have "Run \<notin> set (trace (main env fs))"
      using startup by (simp add: m)
    with assms show ?thesis by simp
  next
    case (Inr t)
    with cases have t: "trace t = trace ?st @ evs @ [NotifyAll]" by simp
    show ?thesis
    proof (cases "is_running t")
      case True
      with Inr t no_join startup show ?thesis
        by (intro exI [where x = "trace t @
              [Log SPDLOG_INFO (getString env SERVER_NAME @ '' server online!'')]"])
           (simp add: main_def main_resume_def)
    next
      case False
      with Inr t no_run startup have "Run \<notin> set (trace (main env fs))"
        by (simp add: main_def main_resume_def)
      with assms show ?thesis by simp
    qed
  qed
qed

theorem joins_in_order_witness:
  "Run \<in> set (trace (main env_ok Map.empty)) \<and>
   (\<exists>pre. trace (main env_ok Map.empty) =
      pre @ [Run, Join g_scheduler, Join g_databaseTasks, Join g_dispatcher, Return 0] \<and>
      (\<forall>w. Join w \<notin> set pre))"
proof -
  have h: "Run \<in> set (trace (main env_ok Map.empty))"
    by code_simp
  from h joins_in_order [OF h] show ?thesis by blast
qed




end
